theory Spec2Isabelle
  imports Main "HOL-Library.Word"
begin

section \<open>Protocol constants and sequence arithmetic (rudp.h)\<close>

text \<open>
  The header \<^verbatim>\<open>rudp.h\<close> fixes the protocol constants, the packet types and the
  four comparison macros, and declares the packed header structure.  Machine integers of
  the C code are words of their width.
\<close>

type_synonym u_int8_t = "8 word"
type_synonym u_int16_t = "16 word"
type_synonym u_int32_t = "32 word"

definition RUDP_VERSION :: u_int16_t where
  "RUDP_VERSION = 1"

definition RUDP_MAXPKTSIZE :: nat where
  "RUDP_MAXPKTSIZE = 1000"

definition RUDP_MAXRETRANS :: int where
  "RUDP_MAXRETRANS = 5"

definition RUDP_WINDOW :: nat where
  "RUDP_WINDOW = 3"

definition RUDP_DATA :: u_int16_t where
  "RUDP_DATA = 1"

definition RUDP_ACK :: u_int16_t where
  "RUDP_ACK = 2"

definition RUDP_SYN :: u_int16_t where
  "RUDP_SYN = 4"

definition RUDP_FIN :: u_int16_t where
  "RUDP_FIN = 5"

text \<open>
  \<^verbatim>\<open>#define SEQ_LT(a,b) ((short)((a)-(b)) < 0)\<close> and its three siblings.  The
  arguments are \<^verbatim>\<open>u_int32_t\<close>, so the subtraction wraps at 32 bits; the cast to
  \<^verbatim>\<open>short\<close> keeps the low 16 bits and reads them in two's complement.
\<close>

definition short_cast :: "u_int32_t \<Rightarrow> int" where
  "short_cast d = sint (ucast d :: 16 word)"

definition SEQ_LT :: "u_int32_t \<Rightarrow> u_int32_t \<Rightarrow> bool" where
  "SEQ_LT a b \<longleftrightarrow> short_cast (a - b) < 0"

definition SEQ_LEQ :: "u_int32_t \<Rightarrow> u_int32_t \<Rightarrow> bool" where
  "SEQ_LEQ a b \<longleftrightarrow> short_cast (a - b) \<le> 0"

definition SEQ_GT :: "u_int32_t \<Rightarrow> u_int32_t \<Rightarrow> bool" where
  "SEQ_GT a b \<longleftrightarrow> short_cast (a - b) > 0"

definition SEQ_GEQ :: "u_int32_t \<Rightarrow> u_int32_t \<Rightarrow> bool" where
  "SEQ_GEQ a b \<longleftrightarrow> short_cast (a - b) \<ge> 0"

text \<open>
  The specification's reading of the same comparison, written on the integers: the
  difference of the two unsigned values, reduced modulo \<open>2 ^ 32\<close>, truncated to 16
  bits and read as a signed number.
\<close>

definition spec_diff_i16 :: "u_int32_t \<Rightarrow> u_int32_t \<Rightarrow> int" where
  "spec_diff_i16 a b =
     (let d32 = (uint a - uint b) mod 2 ^ 32;
          d16 = d32 mod 2 ^ 16
      in if d16 < 2 ^ 15 then d16 else d16 - 2 ^ 16)"

section \<open>Data model (rudp.c)\<close>

record rudp_hdr =
  version :: u_int16_t
  type :: u_int16_t
  seqno :: u_int32_t

text \<open>
  \<^verbatim>\<open>struct rudp_packet\<close>: the header, the payload length and a buffer of
  \<^verbatim>\<open>RUDP_MAXPKTSIZE\<close> bytes.
\<close>

record rudp_packet =
  header :: rudp_hdr
  payload_length :: int
  payload :: "u_int8_t list"

datatype rudp_state_t = SYN_SENT | OPENING | OPEN | FIN_SENT

datatype rudp_event_t = RUDP_EVENT_TIMEOUT | RUDP_EVENT_CLOSED

text \<open>\<^verbatim>\<open>struct data\<close>: one cell of the queue of unsent data (the list is the chain of
  \<^verbatim>\<open>next\<close> pointers).\<close>

record data =
  item :: "u_int8_t list"
  len :: int

record sockaddr_in =
  sin_family :: u_int16_t
  sin_port :: u_int16_t
  sin_addr :: u_int32_t

text \<open>
  A socket handle is the descriptor number cast to a pointer; descriptors handed out by
  the operating system are not negative, so handles and descriptors are natural numbers.
  A function pointer is the number of the function it points to; \<open>None\<close> is the null
  pointer.
\<close>

type_synonym rudp_socket_t = nat
type_synonym fnptr = nat

text \<open>\<^verbatim>\<open>struct timeoutargs\<close>: what a retransmission timer carries.  A timer is
  identified by the bundle it was registered with.\<close>

record timeoutargs =
  fd :: rudp_socket_t
  packet :: rudp_packet
  recipient :: sockaddr_in

record sender_session =
  s_status :: rudp_state_t
  s_seqno :: u_int32_t
  sliding_window :: "rudp_packet option list"
  retransmission_attempts :: "int list"
  data_queue :: "data list"
  s_session_finished :: bool
  syn_timeout_arg :: "timeoutargs option"
  fin_timeout_arg :: "timeoutargs option"
  data_timeout_arg :: "timeoutargs option list"
  syn_retransmit_attempts :: int
  fin_retransmit_attempts :: int

record receiver_session =
  r_status :: rudp_state_t
  expected_seqno :: u_int32_t
  r_session_finished :: bool

record session =
  sender :: "sender_session option"
  receiver :: "receiver_session option"
  address :: sockaddr_in

text \<open>
  \<^verbatim>\<open>struct rudp_socket_list\<close>.  The list of sockets and each list of sessions are
  the chains of \<^verbatim>\<open>next\<close> pointers.  The code frees session and socket structures
  while they are still linked (the close paths of \<^verbatim>\<open>receive_callback\<close>); the two
  flags \<open>sessions_freed\<close> and \<open>socket_freed\<close> record that, so that a later read of
  such a structure is a fault of the model and not a value.
\<close>

record rudp_socket_list =
  rsock :: rudp_socket_t
  close_requested :: bool
  recv_handler :: "fnptr option"
  handler :: "fnptr option"
  sessions_list_head :: "session list"
  sessions_freed :: bool
  socket_freed :: bool

text \<open>The calls the engine makes to the outside: the datagram socket, the event
  manager of \<^verbatim>\<open>event.h\<close> and the two application callbacks.\<close>

datatype effect =
    Sendto rudp_socket_t rudp_packet sockaddr_in
  | Event_timeout timeoutargs
  | Event_timeout_delete timeoutargs
  | Recv_handler fnptr rudp_socket_t sockaddr_in "u_int8_t list" int
  | Handler fnptr rudp_socket_t rudp_event_t sockaddr_in
  | Event_fd_delete rudp_socket_t
  | Close_fd rudp_socket_t

text \<open>Where the C code has undefined behaviour the model stops with a fault.\<close>

datatype fault = Null_Deref | Use_After_Free | Uninit_Read

subsection \<open>Constructors\<close>

text \<open>\<^verbatim>\<open>create_rudp_packet\<close>: the buffer is zeroed and the first \<^verbatim>\<open>len\<close> bytes of the
  payload are copied into it.  Allocation is taken to succeed, here and below.\<close>

definition create_rudp_packet ::
  "u_int16_t \<Rightarrow> u_int32_t \<Rightarrow> int \<Rightarrow> u_int8_t list option \<Rightarrow> rudp_packet" where
  "create_rudp_packet ty sq n pl =
     \<lparr>header = \<lparr>version = RUDP_VERSION, type = ty, seqno = sq\<rparr>,
      payload_length = n,
      payload = (case pl of
                   None \<Rightarrow> replicate RUDP_MAXPKTSIZE 0
                 | Some bs \<Rightarrow> take (nat n) bs @ replicate (RUDP_MAXPKTSIZE - length (take (nat n) bs)) 0)\<rparr>"

text \<open>\<^verbatim>\<open>compare_sockaddr\<close>: family, address and port are equal.  The code compares the
  dotted-quad strings of the two addresses, which are equal exactly when the addresses
  are.\<close>

definition compare_sockaddr :: "sockaddr_in \<Rightarrow> sockaddr_in \<Rightarrow> bool" where
  "compare_sockaddr s1 s2 \<longleftrightarrow>
     sin_family s1 = sin_family s2 \<and> sin_addr s1 = sin_addr s2 \<and> sin_port s1 = sin_port s2"

subsection \<open>Walking the two linked lists\<close>

text \<open>
  \<^verbatim>\<open>while(curr_socket != NULL) { if(curr_socket->rsock == fd) break; ... }\<close>: the
  position of the first socket with the handle, or \<open>None\<close> when the loop leaves
  \<^verbatim>\<open>curr_socket\<close> null.
\<close>

fun socket_search :: "rudp_socket_list list \<Rightarrow> rudp_socket_t \<Rightarrow> fault + nat option" where
  "socket_search [] h = Inr None"
| "socket_search (s # ss) h =
     (if socket_freed s then Inl Use_After_Free
      else if rsock s = h then Inr (Some 0)
      else (case socket_search ss h of
              Inl e \<Rightarrow> Inl e
            | Inr None \<Rightarrow> Inr None
            | Inr (Some k) \<Rightarrow> Inr (Some (Suc k))))"

text \<open>
  \<^verbatim>\<open>while(curr_socket->next != NULL) { if(curr_socket->rsock == rsocket) break; ... }\<close>,
  the loop of \<^verbatim>\<open>rudp_close\<close> and of the two handler registrations: it stops at the
  first socket with the handle or at the last socket, and dereferences the head of the
  list without a check.
\<close>

fun socket_walk :: "rudp_socket_list list \<Rightarrow> rudp_socket_t \<Rightarrow> fault + nat" where
  "socket_walk [] h = Inl Null_Deref"
| "socket_walk [s] h = (if socket_freed s then Inl Use_After_Free else Inr 0)"
| "socket_walk (s # s' # ss) h =
     (if socket_freed s then Inl Use_After_Free
      else if rsock s = h then Inr 0
      else (case socket_walk (s' # ss) h of Inl e \<Rightarrow> Inl e | Inr k \<Rightarrow> Inr (Suc k)))"

text \<open>The search of a socket's sessions for a peer: the position of the first session
  whose address compares equal.\<close>

fun session_search :: "session list \<Rightarrow> sockaddr_in \<Rightarrow> nat option" where
  "session_search [] a = None"
| "session_search (s # ss) a =
     (if compare_sockaddr (address s) a then Some 0
      else map_option Suc (session_search ss a))"

section \<open>Registering the callbacks\<close>

text \<open>\<^verbatim>\<open>rudp_recvfrom_handler\<close> and \<^verbatim>\<open>rudp_event_handler\<close>: the new socket list and
  the value returned.\<close>

definition rudp_recvfrom_handler ::
  "rudp_socket_list list \<Rightarrow> rudp_socket_t \<Rightarrow> fnptr option \<Rightarrow> fault + (rudp_socket_list list \<times> int)" where
  "rudp_recvfrom_handler g rsocket h =
     (case h of
        None \<Rightarrow> Inr (g, - 1)
      | Some f \<Rightarrow>
          (case socket_walk g rsocket of
             Inl e \<Rightarrow> Inl e
           | Inr k \<Rightarrow>
               if rsock (g ! k) = rsocket
               then Inr (g[k := (g ! k)\<lparr>recv_handler := Some f\<rparr>], 0)
               else Inr (g, - 1)))"

definition rudp_event_handler ::
  "rudp_socket_list list \<Rightarrow> rudp_socket_t \<Rightarrow> fnptr option \<Rightarrow> fault + (rudp_socket_list list \<times> int)" where
  "rudp_event_handler g rsocket h =
     (case h of
        None \<Rightarrow> Inr (g, - 1)
      | Some f \<Rightarrow>
          (case socket_walk g rsocket of
             Inl e \<Rightarrow> Inl e
           | Inr k \<Rightarrow>
               if rsock (g ! k) = rsocket
               then Inr (g[k := (g ! k)\<lparr>handler := Some f\<rparr>], 0)
               else Inr (g, - 1)))"

section \<open>Positions in the session table\<close>

text \<open>
  The code holds pointers \<^verbatim>\<open>curr_socket\<close> and \<^verbatim>\<open>curr_session\<close> into the two lists and
  updates the structures in place.  The model holds the positions \<open>i\<close> of the socket and
  \<open>j\<close> of the session, reads through them and writes back at them.
\<close>

definition session_at :: "rudp_socket_list list \<Rightarrow> nat \<Rightarrow> nat \<Rightarrow> session option" where
  "session_at g i j =
     (if i < length g \<and> j < length (sessions_list_head (g ! i))
      then Some (sessions_list_head (g ! i) ! j) else None)"

definition sender_at :: "rudp_socket_list list \<Rightarrow> nat \<Rightarrow> nat \<Rightarrow> sender_session option" where
  "sender_at g i j = (case session_at g i j of None \<Rightarrow> None | Some cs \<Rightarrow> sender cs)"

definition put_session :: "rudp_socket_list list \<Rightarrow> nat \<Rightarrow> nat \<Rightarrow> session \<Rightarrow> rudp_socket_list list" where
  "put_session g i j cs =
     g[i := (g ! i)\<lparr>sessions_list_head := (sessions_list_head (g ! i))[j := cs]\<rparr>]"

definition put_sender ::
  "rudp_socket_list list \<Rightarrow> nat \<Rightarrow> nat \<Rightarrow> sender_session \<Rightarrow> rudp_socket_list list" where
  "put_sender g i j s =
     put_session g i j ((sessions_list_head (g ! i) ! j)\<lparr>sender := Some s\<rparr>)"

text \<open>Reading the sessions of a socket after they were freed is a fault.\<close>

definition sessions_lookup :: "rudp_socket_list \<Rightarrow> sockaddr_in \<Rightarrow> fault + nat option" where
  "sessions_lookup sock a =
     (if sessions_list_head sock \<noteq> [] \<and> sessions_freed sock then Inl Use_After_Free
      else Inr (session_search (sessions_list_head sock) a))"

text \<open>\<^verbatim>\<open>create_receiver_session\<close> and \<^verbatim>\<open>create_sender_session\<close> append a new session to
  the socket's list.  The sender's two timer pointers for SYN and FIN are left
  uninitialised by the code; \<open>None\<close> stands for that.\<close>

definition create_receiver_session ::
  "rudp_socket_list \<Rightarrow> u_int32_t \<Rightarrow> sockaddr_in \<Rightarrow> rudp_socket_list" where
  "create_receiver_session sock sq addr =
     sock\<lparr>sessions_list_head := sessions_list_head sock @
       [\<lparr>sender = None,
         receiver = Some \<lparr>r_status = OPENING, expected_seqno = sq, r_session_finished = False\<rparr>,
         address = addr\<rparr>]\<rparr>"

definition create_sender_session ::
  "rudp_socket_list \<Rightarrow> u_int32_t \<Rightarrow> sockaddr_in \<Rightarrow> data list \<Rightarrow> rudp_socket_list" where
  "create_sender_session sock sq to dq =
     sock\<lparr>sessions_list_head := sessions_list_head sock @
       [\<lparr>sender = Some
           \<lparr>s_status = SYN_SENT, s_seqno = sq,
            sliding_window = replicate RUDP_WINDOW None,
            retransmission_attempts = replicate RUDP_WINDOW 0,
            data_queue = dq,
            s_session_finished = False,
            syn_timeout_arg = None, fin_timeout_arg = None,
            data_timeout_arg = replicate RUDP_WINDOW None,
            syn_retransmit_attempts = 0, fin_retransmit_attempts = 0\<rparr>,
         receiver = None,
         address = to\<rparr>]\<rparr>"

section \<open>Transmitting a packet\<close>

text \<open>
  The loop of \<^verbatim>\<open>send_packet\<close> and \<^verbatim>\<open>timeout_callback\<close> that looks for the window slot
  holding a sequence number: it runs over all slots without a \<^verbatim>\<open>break\<close>, so the last
  match wins, and \<^verbatim>\<open>index\<close> stays uninitialised (\<open>None\<close>) when no slot matches.
\<close>

definition window_index :: "rudp_packet option list \<Rightarrow> u_int32_t \<Rightarrow> nat option" where
  "window_index w sq =
     fold (\<lambda>i index. case w ! i of
                        None \<Rightarrow> index
                      | Some p \<Rightarrow> if seqno (header p) = sq then Some i else index)
       [0..<RUDP_WINDOW] None"

text \<open>The end of \<^verbatim>\<open>send_packet\<close>: the new timer bundle is stored in the session found
  for the recipient, in the field that belongs to the packet's type.\<close>

definition register_timeout_arg :: "session \<Rightarrow> timeoutargs \<Rightarrow> fault + session" where
  "register_timeout_arg cs ta =
     (let ty = type (header (packet ta)) in
      if ty = RUDP_SYN then
        (case sender cs of
           None \<Rightarrow> Inl Null_Deref
         | Some s \<Rightarrow> Inr (cs\<lparr>sender := Some (s\<lparr>syn_timeout_arg := Some ta\<rparr>)\<rparr>))
      else if ty = RUDP_FIN then
        (case sender cs of
           None \<Rightarrow> Inl Null_Deref
         | Some s \<Rightarrow> Inr (cs\<lparr>sender := Some (s\<lparr>fin_timeout_arg := Some ta\<rparr>)\<rparr>))
      else if ty = RUDP_DATA then
        (case sender cs of
           None \<Rightarrow> Inl Null_Deref
         | Some s \<Rightarrow>
             (case window_index (sliding_window s) (seqno (header (packet ta))) of
                None \<Rightarrow> Inl Uninit_Read
              | Some index \<Rightarrow>
                  Inr (cs\<lparr>sender := Some (s\<lparr>data_timeout_arg :=
                                               (data_timeout_arg s)[index := Some ta]\<rparr>)\<rparr>)))
      else Inr cs)"

text \<open>
  \<^verbatim>\<open>send_packet\<close>.  \<^verbatim>\<open>DROP\<close> is 0, so the datagram is always handed to
  \<^verbatim>\<open>sendto\<close>, which is taken to succeed.  What is sent is the whole packet structure.
  For a packet that is not an ACK a timer bundle is registered with the event manager
  and, when a session for the recipient exists, stored in it.
\<close>

definition send_packet ::
  "bool \<Rightarrow> rudp_socket_list list \<Rightarrow> rudp_socket_t \<Rightarrow> rudp_packet \<Rightarrow> sockaddr_in \<Rightarrow>
     fault + (rudp_socket_list list \<times> effect list)" where
  "send_packet is_ack g rsocket p to =
     (if is_ack then Inr (g, [Sendto rsocket p to])
      else
        (let timeargs = \<lparr>fd = rsocket, packet = p, recipient = to\<rparr> in
         case socket_search g rsocket of
           Inl e \<Rightarrow> Inl e
         | Inr None \<Rightarrow> Inl Null_Deref
         | Inr (Some i) \<Rightarrow>
             (case sessions_lookup (g ! i) to of
                Inl e \<Rightarrow> Inl e
              | Inr None \<Rightarrow> Inr (g, [Sendto rsocket p to, Event_timeout timeargs])
              | Inr (Some j) \<Rightarrow>
                  (case register_timeout_arg (sessions_list_head (g ! i) ! j) timeargs of
                     Inl e \<Rightarrow> Inl e
                   | Inr cs \<Rightarrow>
                       Inr (put_session g i j cs,
                            [Sendto rsocket p to, Event_timeout timeargs])))))"

section \<open>Receiving a packet\<close>

subsection \<open>Refilling the sliding window from the queue\<close>

text \<open>\<^verbatim>\<open>for(i = RUDP_WINDOW-1; i >= 0; i--) if(sliding_window[i] == NULL) index = i;\<close>\<close>

definition first_unused_slot :: "rudp_packet option list \<Rightarrow> nat option" where
  "first_unused_slot w =
     fold (\<lambda>i index. if w ! i = None then Some i else index) (rev [0..<RUDP_WINDOW]) None"

text \<open>The length of the queue of the sender at a position: the measure of the loop
  below, which \<^verbatim>\<open>send_packet\<close> does not change.\<close>

definition queue_length :: "rudp_socket_list list \<Rightarrow> nat \<Rightarrow> nat \<Rightarrow> nat" where
  "queue_length g i j = (case sender_at g i j of None \<Rightarrow> 0 | Some s \<Rightarrow> length (data_queue s))"

lemma register_timeout_arg_queue:
  "register_timeout_arg cs ta = Inr cs' \<Longrightarrow>
     map_option data_queue (sender cs') = map_option data_queue (sender cs)"
  by (auto simp: register_timeout_arg_def Let_def split: if_splits option.splits)

lemma session_at_put_session:
  "session_at (put_session g i' j' cs) i j =
     (if i = i' \<and> j = j' \<and> i < length g \<and> j < length (sessions_list_head (g ! i))
      then Some cs else session_at g i j)"
proof (cases "i = i'")
  case True
  then show ?thesis
    by (cases "i < length g") (simp_all add: session_at_def put_session_def nth_list_update)
next
  case False
  then show ?thesis
    by (simp add: session_at_def put_session_def)
qed

lemma send_packet_queue_length:
  assumes "send_packet is_ack g h p to = Inr (g', es)"
  shows "queue_length g' i j = queue_length g i j"
proof (cases is_ack)
  case True
  with assms show ?thesis by (simp add: send_packet_def)
next
  case False
  with assms consider "g' = g"
    | i' j' cs where "g' = put_session g i' j' cs"
        "register_timeout_arg (sessions_list_head (g ! i') ! j') \<lparr>fd = h, packet = p, recipient = to\<rparr> = Inr cs"
    by (auto simp: send_packet_def Let_def split: sum.splits option.splits)
  then show ?thesis
  proof cases
    case 1
    then show ?thesis by simp
  next
    case 2
    show ?thesis
      using register_timeout_arg_queue [OF 2(2)]
      by (auto simp: 2(1) queue_length_def sender_at_def session_at_put_session
          split: option.splits) (auto simp: session_at_def)
  qed
qed

lemma queue_length_put_sender:
  "sender_at g i j = Some s \<Longrightarrow> queue_length (put_sender g i j s') i j = length (data_queue s')"
  by (auto simp: queue_length_def sender_at_def put_sender_def session_at_put_session
      split: option.splits if_splits) (auto simp: session_at_def split: if_splits)

text \<open>
  The loop \<^verbatim>\<open>while(data_queue != NULL)\<close> that moves queued data into free window
  slots and transmits it.  It stands twice in \<^verbatim>\<open>receive_callback\<close>: after the ACK of
  a SYN, where the sequence number of each packet is counted in the local variable
  \<^verbatim>\<open>syn_sqn\<close> (\<open>local = Some syn_sqn\<close>), and after the ACK of DATA, where it is read
  from the sender (\<open>local = None\<close>).  Both increment the sender's \<^verbatim>\<open>seqno\<close>.
\<close>

function refill_window ::
  "u_int32_t option \<Rightarrow> rudp_socket_list list \<Rightarrow> nat \<Rightarrow> nat \<Rightarrow> rudp_socket_t \<Rightarrow> sockaddr_in \<Rightarrow>
     fault + (rudp_socket_list list \<times> effect list)" where
  "refill_window local g i j file to =
     (case sender_at g i j of
        None \<Rightarrow> Inl Null_Deref
      | Some s \<Rightarrow>
          (case data_queue s of
             [] \<Rightarrow> Inr (g, [])
           | d # rest \<Rightarrow>
               if sliding_window s ! (RUDP_WINDOW - 1) \<noteq> None then Inr (g, [])
               else
                 (case first_unused_slot (sliding_window s) of
                    None \<Rightarrow> Inl Uninit_Read
                  | Some index \<Rightarrow>
                      (let sq = (case local of None \<Rightarrow> s_seqno s + 1 | Some syn_sqn \<Rightarrow> syn_sqn + 1);
                           datap = create_rudp_packet RUDP_DATA sq (len d) (Some (item d));
                           s' = s\<lparr>s_seqno := s_seqno s + 1,
                                  sliding_window := (sliding_window s)[index := Some datap],
                                  retransmission_attempts := (retransmission_attempts s)[index := 0],
                                  data_queue := rest\<rparr>
                       in case send_packet False (put_sender g i j s') file datap to of
                            Inl e \<Rightarrow> Inl e
                          | Inr (g', es) \<Rightarrow>
                              (case refill_window (map_option (\<lambda>_. sq) local) g' i j file to of
                                 Inl e \<Rightarrow> Inl e
                               | Inr (g'', es') \<Rightarrow> Inr (g'', es @ es'))))))"
  by pat_completeness auto
termination
proof (relation "measure (\<lambda>(local, g, i, j, fl, to). queue_length g i j)", goal_cases)
  case 1
  show ?case by simp
next
  case (2 local g i j fl to s d rest index sq datap s' res g' es)
  have sp: "send_packet False (put_sender g i j s') fl datap to = Inr (g', es)"
    using 2 by simp
  have "queue_length g' i j = queue_length (put_sender g i j s') i j"
    by (rule send_packet_queue_length [OF sp])
  also have "\<dots> = length rest"
    using 2 by (simp add: queue_length_put_sender)
  finally show ?case
    using 2 by (simp add: queue_length_def)
qed


declare refill_window.simps [simp del]

subsection \<open>Shifting the window\<close>

text \<open>One round of the \<^verbatim>\<open>for\<close> loop that moves slot \<open>i + 1\<close> to slot \<open>i\<close> in the three
  arrays, and clears the last slot in the last round.\<close>

definition shift_step :: "nat \<Rightarrow> sender_session \<Rightarrow> sender_session" where
  "shift_step i s =
     (let s1 = s\<lparr>sliding_window := (sliding_window s)[i := sliding_window s ! (i + 1)],
                  retransmission_attempts :=
                    (retransmission_attempts s)[i := retransmission_attempts s ! (i + 1)],
                  data_timeout_arg := (data_timeout_arg s)[i := data_timeout_arg s ! (i + 1)]\<rparr>
      in if i = RUDP_WINDOW - 2
         then s1\<lparr>sliding_window := (sliding_window s1)[i + 1 := None],
                 retransmission_attempts := (retransmission_attempts s1)[i + 1 := 0],
                 data_timeout_arg := (data_timeout_arg s1)[i + 1 := None]\<rparr>
         else s1)"

definition shift_window :: "sender_session \<Rightarrow> sender_session" where
  "shift_window s =
     (if RUDP_WINDOW = 1
      then s\<lparr>sliding_window := (sliding_window s)[0 := None],
             retransmission_attempts := (retransmission_attempts s)[0 := 0],
             data_timeout_arg := (data_timeout_arg s)[0 := None]\<rparr>
      else fold shift_step [0..<RUDP_WINDOW - 1] s)"

subsection \<open>Closing\<close>

text \<open>
  The loop over all sessions of the socket that runs after an ACK of DATA when close
  was requested: every sender that is open with nothing left to send gets its FIN.  The
  list holds the positions of the sessions still to visit.  A session without a sender
  half is dereferenced all the same.
\<close>

fun send_fins ::
  "nat list \<Rightarrow> rudp_socket_list list \<Rightarrow> nat \<Rightarrow> rudp_socket_t \<Rightarrow>
     fault + (rudp_socket_list list \<times> effect list)" where
  "send_fins [] g i file = Inr (g, [])"
| "send_fins (k # ks) g i file =
     (case session_at g i k of
        None \<Rightarrow> Inl Null_Deref
      | Some hs \<Rightarrow>
          (case sender hs of
             None \<Rightarrow> Inl Null_Deref
           | Some s \<Rightarrow>
               if \<not> s_session_finished s \<and> data_queue s = [] \<and>
                  sliding_window s ! 0 = None \<and> s_status s = OPEN
               then
                 (let s1 = s\<lparr>s_seqno := s_seqno s + 1\<rparr>;
                      p = create_rudp_packet RUDP_FIN (s_seqno s1) 0 None
                  in case send_packet False (put_sender g i k s1) file p (address hs) of
                       Inl e \<Rightarrow> Inl e
                     | Inr (g1, es) \<Rightarrow>
                         (case sender_at g1 i k of
                            None \<Rightarrow> Inl Null_Deref
                          | Some s2 \<Rightarrow>
                              (case send_fins ks (put_sender g1 i k (s2\<lparr>s_status := FIN_SENT\<rparr>)) i file of
                                 Inl e \<Rightarrow> Inl e
                               | Inr (g2, es') \<Rightarrow> Inr (g2, es @ es'))))
               else send_fins ks g i file))"

text \<open>
  The loop that decides whether the socket can be closed.  It reads the sender half of
  every session without a check, computes \<^verbatim>\<open>all_done\<close>, and frees every session
  structure on its way, whatever \<^verbatim>\<open>all_done\<close> turns out to be.
\<close>

fun all_done_scan :: "session list \<Rightarrow> fault + bool" where
  "all_done_scan [] = Inr True"
| "all_done_scan (hs # rest) =
     (case sender hs of
        None \<Rightarrow> Inl Null_Deref
      | Some s \<Rightarrow>
          (case all_done_scan rest of
             Inl e \<Rightarrow> Inl e
           | Inr d \<Rightarrow>
               Inr ((if \<not> s_session_finished s then False
                     else (case receiver hs of
                             None \<Rightarrow> True
                           | Some r \<Rightarrow> r_session_finished r)) \<and> d)))"

definition close_socket ::
  "rudp_socket_list list \<Rightarrow> nat \<Rightarrow> rudp_socket_t \<Rightarrow> sockaddr_in \<Rightarrow>
     fault + (rudp_socket_list list \<times> effect list)" where
  "close_socket g i file from =
     (case all_done_scan (sessions_list_head (g ! i)) of
        Inl e \<Rightarrow> Inl e
      | Inr all_done \<Rightarrow>
          (let g1 = g[i := (g ! i)\<lparr>sessions_freed := True\<rparr>] in
           if all_done then
             (case handler (g ! i) of
                None \<Rightarrow> Inr (g1, [])
              | Some h \<Rightarrow>
                  Inr (g1[i := (g1 ! i)\<lparr>socket_freed := True\<rparr>],
                       [Handler h file RUDP_EVENT_CLOSED from, Event_fd_delete file, Close_fd file]))
           else Inr (g1, [])))"

subsection \<open>The four packet types on an existing session\<close>

text \<open>Sequencing of two steps: the second runs on the state the first leaves, and the
  effects follow each other.\<close>

definition and_then ::
  "fault + (rudp_socket_list list \<times> effect list) \<Rightarrow>
   (rudp_socket_list list \<Rightarrow> fault + (rudp_socket_list list \<times> effect list)) \<Rightarrow>
   fault + (rudp_socket_list list \<times> effect list)" where
  "and_then r f =
     (case r of
        Inl e \<Rightarrow> Inl e
      | Inr (g, es) \<Rightarrow> (case f g of Inl e \<Rightarrow> Inl e | Inr (g', es') \<Rightarrow> Inr (g', es @ es')))"

text \<open>A SYN for a peer that has no session yet: a receiver session is appended and the
  SYN is acknowledged.\<close>

definition accept_syn ::
  "rudp_socket_list list \<Rightarrow> nat \<Rightarrow> rudp_socket_t \<Rightarrow> rudp_hdr \<Rightarrow> sockaddr_in \<Rightarrow>
     fault + (rudp_socket_list list \<times> effect list)" where
  "accept_syn g i file rudpheader from =
     (let sq = seqno rudpheader + 1;
          g1 = g[i := create_receiver_session (g ! i) sq from]
      in send_packet True g1 file (create_rudp_packet RUDP_ACK sq 0 None) from)"

definition on_syn ::
  "rudp_socket_list list \<Rightarrow> nat \<Rightarrow> nat \<Rightarrow> rudp_socket_t \<Rightarrow> rudp_hdr \<Rightarrow> sockaddr_in \<Rightarrow>
     fault + (rudp_socket_list list \<times> effect list)" where
  "on_syn g i j file rudpheader from =
     (case session_at g i j of
        None \<Rightarrow> Inl Null_Deref
      | Some cs \<Rightarrow>
          if (case receiver cs of None \<Rightarrow> True | Some r \<Rightarrow> r_status r = OPENING) then
            (let r' = \<lparr>r_status = OPENING, expected_seqno = seqno rudpheader + 1,
                       r_session_finished = False\<rparr>;
                 g1 = put_session g i j (cs\<lparr>receiver := Some r'\<rparr>)
             in send_packet True g1 file
                  (create_rudp_packet RUDP_ACK (expected_seqno r') 0 None) from)
          else Inr (g, []))"

definition on_ack ::
  "rudp_socket_list list \<Rightarrow> nat \<Rightarrow> nat \<Rightarrow> rudp_socket_t \<Rightarrow> rudp_hdr \<Rightarrow> sockaddr_in \<Rightarrow>
     fault + (rudp_socket_list list \<times> effect list)" where
  "on_ack g i j file rudpheader from =
     (case sender_at g i j of
        None \<Rightarrow> Inl Null_Deref
      | Some s \<Rightarrow>
          if s_status s = SYN_SENT then
            (if seqno rudpheader - 1 = s_seqno s then
               (case syn_timeout_arg s of
                  None \<Rightarrow> Inl Uninit_Read
                | Some t \<Rightarrow>
                    and_then (Inr (put_sender g i j (s\<lparr>s_status := OPEN\<rparr>), [Event_timeout_delete t]))
                      (\<lambda>g1. refill_window (Some (s_seqno s)) g1 i j file from))
             else Inr (g, []))
          else if s_status s = OPEN then
            (case sliding_window s ! 0 of
               None \<Rightarrow> Inr (g, [])
             | Some w0 \<Rightarrow>
                 if seqno (header w0) = seqno rudpheader - 1 then
                   (case data_timeout_arg s ! 0 of
                      None \<Rightarrow> Inl Null_Deref
                    | Some args \<Rightarrow>
                        and_then
                          (and_then (Inr (put_sender g i j (shift_window s), [Event_timeout_delete args]))
                             (\<lambda>g1. refill_window None g1 i j file from))
                          (\<lambda>g2. if close_requested (g2 ! i)
                                 then send_fins [0..<length (sessions_list_head (g2 ! i))] g2 i file
                                 else Inr (g2, [])))
                 else Inr (g, []))
          else if s_status s = FIN_SENT then
            (if s_seqno s + 1 = seqno rudpheader then
               (case fin_timeout_arg s of
                  None \<Rightarrow> Inl Uninit_Read
                | Some t \<Rightarrow>
                    and_then
                      (Inr (put_sender g i j (s\<lparr>s_session_finished := True\<rparr>), [Event_timeout_delete t]))
                      (\<lambda>g1. if close_requested (g1 ! i) then close_socket g1 i file from
                             else Inr (g1, [])))
             else Inr (g, []))
          else Inr (g, []))"

definition on_data ::
  "rudp_socket_list list \<Rightarrow> nat \<Rightarrow> nat \<Rightarrow> rudp_socket_t \<Rightarrow> rudp_packet \<Rightarrow> sockaddr_in \<Rightarrow>
     fault + (rudp_socket_list list \<times> effect list)" where
  "on_data g i j file received_packet from =
     (case session_at g i j of
        None \<Rightarrow> Inl Null_Deref
      | Some cs \<Rightarrow>
          (case receiver cs of
             None \<Rightarrow> Inl Null_Deref
           | Some r \<Rightarrow>
               (let rudpheader = header received_packet;
                    r1 = (if r_status r = OPENING \<and> seqno rudpheader = expected_seqno r
                          then r\<lparr>r_status := OPEN\<rparr> else r);
                    g1 = put_session g i j (cs\<lparr>receiver := Some r1\<rparr>)
                in if seqno rudpheader = expected_seqno r1 then
                     (let sq = seqno rudpheader + 1;
                          g2 = put_session g i j (cs\<lparr>receiver := Some (r1\<lparr>expected_seqno := sq\<rparr>)\<rparr>)
                      in and_then
                           (send_packet True g2 file (create_rudp_packet RUDP_ACK sq 0 None) from)
                           (\<lambda>g3. case recv_handler (g3 ! i) of
                                    None \<Rightarrow> Inr (g3, [])
                                  | Some h \<Rightarrow>
                                      Inr (g3, [Recv_handler h file from (payload received_packet)
                                                  (payload_length received_packet)])))
                   else if SEQ_GEQ (seqno rudpheader) (expected_seqno r1 - of_nat RUDP_WINDOW) \<and>
                           SEQ_LT (seqno rudpheader) (expected_seqno r1) then
                     send_packet True g1 file
                       (create_rudp_packet RUDP_ACK (seqno rudpheader + 1) 0 None) from
                   else Inr (g1, []))))"

definition on_fin ::
  "rudp_socket_list list \<Rightarrow> nat \<Rightarrow> nat \<Rightarrow> rudp_socket_t \<Rightarrow> rudp_hdr \<Rightarrow> sockaddr_in \<Rightarrow>
     fault + (rudp_socket_list list \<times> effect list)" where
  "on_fin g i j file rudpheader from =
     (case session_at g i j of
        None \<Rightarrow> Inl Null_Deref
      | Some cs \<Rightarrow>
          (case receiver cs of
             None \<Rightarrow> Inl Null_Deref
           | Some r \<Rightarrow>
               if r_status r = OPEN then
                 (if seqno rudpheader = expected_seqno r then
                    and_then
                      (send_packet True g file
                         (create_rudp_packet RUDP_ACK (expected_seqno r + 1) 0 None) from)
                      (\<lambda>g1. let g2 = put_session g1 i j
                                        (cs\<lparr>receiver := Some (r\<lparr>r_session_finished := True\<rparr>)\<rparr>)
                             in if close_requested (g2 ! i) then close_socket g2 i file from
                                else Inr (g2, []))
                  else Inr (g, []))
               else Inr (g, [])))"

subsection \<open>The dispatcher\<close>

text \<open>
  \<^verbatim>\<open>receive_callback\<close> from the point where the datagram has been copied into
  \<^verbatim>\<open>received_packet\<close>: \<open>from\<close> is the address \<^verbatim>\<open>recvfrom\<close> reported.  The result is
  the new socket list, the calls made and the value returned.  The version field of the
  header and the number of bytes received are never looked at.  The messages printed
  are not part of the model.
\<close>

definition receive_callback ::
  "rudp_socket_list list \<Rightarrow> rudp_socket_t \<Rightarrow> rudp_packet \<Rightarrow> sockaddr_in \<Rightarrow>
     fault + (rudp_socket_list list \<times> effect list \<times> int)" where
  "receive_callback g file received_packet from =
     (let rudpheader = header received_packet in
      if g = [] then Inr (g, [], - 1)
      else
        (case socket_search g file of
           Inl e \<Rightarrow> Inl e
         | Inr None \<Rightarrow> Inl Null_Deref
         | Inr (Some i) \<Rightarrow>
             (case
                (if sessions_list_head (g ! i) = [] then
                   (if type rudpheader = RUDP_SYN then accept_syn g i file rudpheader from
                    else Inr (g, []))
                 else
                   (case sessions_lookup (g ! i) from of
                      Inl e \<Rightarrow> Inl e
                    | Inr None \<Rightarrow>
                        if type rudpheader = RUDP_SYN then accept_syn g i file rudpheader from
                        else Inr (g, [])
                    | Inr (Some j) \<Rightarrow>
                        and_then
                          (if type rudpheader = RUDP_SYN then on_syn g i j file rudpheader from
                           else Inr (g, []))
                          (\<lambda>g1. if type rudpheader = RUDP_ACK then
                                   on_ack g1 i j file rudpheader from
                                 else if type rudpheader = RUDP_DATA then
                                   on_data g1 i j file received_packet from
                                 else if type rudpheader = RUDP_FIN then
                                   on_fin g1 i j file rudpheader from
                                 else Inr (g1, []))))
              of
                Inl e \<Rightarrow> Inl e
              | Inr (g', es) \<Rightarrow> Inr (g', es, 0))))"

section \<open>Retransmission timers\<close>

text \<open>
  \<^verbatim>\<open>timeout_callback\<close>, called by the event manager with the bundle the timer was
  registered with.  The event handler is called without a check for null.  The code
  releases the bundle's packet twice after a retransmission; releasing packets and
  bundles is not part of the model.
\<close>

definition give_up ::
  "rudp_socket_list list \<Rightarrow> nat \<Rightarrow> timeoutargs \<Rightarrow>
     fault + (rudp_socket_list list \<times> effect list \<times> int)" where
  "give_up g i timeargs =
     (case handler (g ! i) of
        None \<Rightarrow> Inl Null_Deref
      | Some h \<Rightarrow>
          Inr (g, [Handler h (fd timeargs) RUDP_EVENT_TIMEOUT (recipient timeargs)], 0))"

definition retransmit ::
  "rudp_socket_list list \<Rightarrow> timeoutargs \<Rightarrow>
     fault + (rudp_socket_list list \<times> effect list \<times> int)" where
  "retransmit g timeargs =
     (case send_packet False g (fd timeargs) (packet timeargs) (recipient timeargs) of
        Inl e \<Rightarrow> Inl e
      | Inr (g', es) \<Rightarrow> Inr (g', es, 0))"

definition timeout_callback ::
  "rudp_socket_list list \<Rightarrow> timeoutargs \<Rightarrow>
     fault + (rudp_socket_list list \<times> effect list \<times> int)" where
  "timeout_callback g timeargs =
     (case socket_search g (fd timeargs) of
        Inl e \<Rightarrow> Inl e
      | Inr None \<Rightarrow> Inl Null_Deref
      | Inr (Some i) \<Rightarrow>
          (case sessions_lookup (g ! i) (recipient timeargs) of
             Inl e \<Rightarrow> Inl e
           | Inr None \<Rightarrow> Inr (g, [], 0)
           | Inr (Some j) \<Rightarrow>
               (case sender_at g i j of
                  None \<Rightarrow> Inl Null_Deref
                | Some s \<Rightarrow>
                    if type (header (packet timeargs)) = RUDP_SYN then
                      (if syn_retransmit_attempts s \<ge> RUDP_MAXRETRANS then give_up g i timeargs
                       else retransmit
                              (put_sender g i j
                                 (s\<lparr>syn_retransmit_attempts := syn_retransmit_attempts s + 1\<rparr>))
                              timeargs)
                    else if type (header (packet timeargs)) = RUDP_FIN then
                      (if fin_retransmit_attempts s \<ge> RUDP_MAXRETRANS then give_up g i timeargs
                       else retransmit
                              (put_sender g i j
                                 (s\<lparr>fin_retransmit_attempts := fin_retransmit_attempts s + 1\<rparr>))
                              timeargs)
                    else
                      (case window_index (sliding_window s) (seqno (header (packet timeargs))) of
                         None \<Rightarrow> Inl Uninit_Read
                       | Some index \<Rightarrow>
                           if retransmission_attempts s ! index \<ge> RUDP_MAXRETRANS
                           then give_up g i timeargs
                           else retransmit
                                  (put_sender g i j
                                     (s\<lparr>retransmission_attempts :=
                                          (retransmission_attempts s)
                                            [index := retransmission_attempts s ! index + 1]\<rparr>))
                                  timeargs))))"

section \<open>The application interface\<close>

text \<open>\<^verbatim>\<open>rudp_close\<close> only sets the flag.\<close>

definition rudp_close ::
  "rudp_socket_list list \<Rightarrow> rudp_socket_t \<Rightarrow> fault + (rudp_socket_list list \<times> int)" where
  "rudp_close g rsocket =
     (case socket_walk g rsocket of
        Inl e \<Rightarrow> Inl e
      | Inr k \<Rightarrow>
          if rsock (g ! k) = rsocket
          then Inr (g[k := (g ! k)\<lparr>close_requested := True\<rparr>], 0)
          else Inr (g, - 1))"

text \<open>\<^verbatim>\<open>for(i = 0; i < RUDP_WINDOW; i++) if(sliding_window[i] == NULL) { ... break; }\<close>\<close>

definition first_free_slot :: "rudp_packet option list \<Rightarrow> nat option" where
  "first_free_slot w = find (\<lambda>i. w ! i = None) [0..<RUDP_WINDOW]"

text \<open>The datagram of a session that already has a sender half: it goes into the
  window and onto the wire when the sender is open with an empty queue and a free slot,
  and to the end of the queue otherwise.\<close>

definition send_or_queue ::
  "rudp_socket_list list \<Rightarrow> nat \<Rightarrow> nat \<Rightarrow> sender_session \<Rightarrow> rudp_socket_t \<Rightarrow>
   u_int8_t list \<Rightarrow> int \<Rightarrow> sockaddr_in \<Rightarrow> fault + (rudp_socket_list list \<times> effect list)" where
  "send_or_queue g i j s rsocket dat n to =
     (let data_item = \<lparr>item = take (nat n) dat, len = n\<rparr>;
          data_is_queued = (data_queue s \<noteq> [])
      in case (if s_status s = OPEN \<and> \<not> data_is_queued
               then first_free_slot (sliding_window s) else None) of
           Some k \<Rightarrow>
             (let datap = create_rudp_packet RUDP_DATA (s_seqno s + 1) n (Some dat);
                  s' = s\<lparr>s_seqno := s_seqno s + 1,
                         sliding_window := (sliding_window s)[k := Some datap],
                         retransmission_attempts := (retransmission_attempts s)[k := 0]\<rparr>
              in send_packet False (put_sender g i j s') rsocket datap to)
         | None \<Rightarrow> Inr (put_sender g i j (s\<lparr>data_queue := data_queue s @ [data_item]\<rparr>), []))"

text \<open>
  \<^verbatim>\<open>rudp_sendto\<close>.  \<open>to = None\<close> is the null pointer; \<open>r1\<close> and \<open>r2\<close> are the values the
  next two calls of \<^verbatim>\<open>rand()\<close> return.  The test \<^verbatim>\<open>rsocket < 0\<close> compares a pointer,
  which is never below zero.  When the peer's session has no sender half the code
  appends a new session, sends the SYN, leaves the loop with \<^verbatim>\<open>session_found\<close> still
  false and therefore appends a second session.
\<close>

definition rudp_sendto ::
  "rudp_socket_list list \<Rightarrow> rudp_socket_t \<Rightarrow> u_int8_t list \<Rightarrow> int \<Rightarrow> sockaddr_in option \<Rightarrow>
   u_int32_t \<Rightarrow> u_int32_t \<Rightarrow> fault + (rudp_socket_list list \<times> effect list \<times> int)" where
  "rudp_sendto g rsocket dat n to_ptr r1 r2 =
     (if n < 0 \<or> n > int RUDP_MAXPKTSIZE then Inr (g, [], - 1)
      else if rsocket < 0 then Inr (g, [], - 1)
      else
        (case to_ptr of
           None \<Rightarrow> Inr (g, [], - 1)
         | Some to \<Rightarrow>
             if g = [] then Inr (g, [], - 1)
             else
               (case socket_search g rsocket of
                  Inl e \<Rightarrow> Inl e
                | Inr None \<Rightarrow> Inl Null_Deref
                | Inr (Some i) \<Rightarrow>
                    (let data_item = \<lparr>item = take (nat n) dat, len = n\<rparr>;
                         new_session =
                           send_packet False (g[i := create_sender_session (g ! i) r1 to [data_item]])
                             rsocket (create_rudp_packet RUDP_SYN r1 0 None) to
                     in case
                          (if sessions_list_head (g ! i) = [] then new_session
                           else
                             (case sessions_lookup (g ! i) to of
                                Inl e \<Rightarrow> Inl e
                              | Inr None \<Rightarrow> new_session
                              | Inr (Some j) \<Rightarrow>
                                  (case sender (sessions_list_head (g ! i) ! j) of
                                     None \<Rightarrow>
                                       and_then new_session
                                         (\<lambda>g1. Inr (g1[i := create_sender_session (g1 ! i) r2 to
                                                              [data_item]], []))
                                   | Some s \<Rightarrow> send_or_queue g i j s rsocket dat n to)))
                        of
                          Inl e \<Rightarrow> Inl e
                        | Inr (g', es) \<Rightarrow> Inr (g', es, 0)))))"

section \<open>Creating a socket, and the states a program can reach\<close>

text \<open>
  \<^verbatim>\<open>rudp_socket\<close>.  The calls of \<^verbatim>\<open>socket\<close>, \<^verbatim>\<open>bind\<close> and \<^verbatim>\<open>malloc\<close> are taken to
  succeed; \<open>sockfd\<close> is the descriptor that \<^verbatim>\<open>socket\<close> returned.  The new entry is
  appended at the end of the socket list, which is walked to its last element: an entry
  that \<^verbatim>\<open>rudp_close\<close> freed without unlinking is read on the way.
\<close>

definition rudp_socket ::
  "rudp_socket_list list \<Rightarrow> nat \<Rightarrow> fault + (rudp_socket_list list \<times> rudp_socket_t)" where
  "rudp_socket g sockfd =
     (if list_ex socket_freed g then Inl Use_After_Free
      else Inr (g @ [\<lparr>rsock = sockfd, close_requested = False, recv_handler = None,
                       handler = None, sessions_list_head = [],
                       sessions_freed = False, socket_freed = False\<rparr>], sockfd))"

text \<open>
  The states of the socket list that a program reaches from the empty list by calls of
  the application interface and by the callbacks of the event manager, as long as no
  call runs into undefined behaviour.  The datagrams received and the timers that fire
  are arbitrary.
\<close>

inductive reachable :: "rudp_socket_list list \<Rightarrow> bool" where
  start: "reachable []"
| socket: "reachable g \<Longrightarrow> rudp_socket g sockfd = Inr (g', h) \<Longrightarrow> reachable g'"
| close: "reachable g \<Longrightarrow> rudp_close g h = Inr (g', rv) \<Longrightarrow> reachable g'"
| recvfrom_handler:
    "reachable g \<Longrightarrow> rudp_recvfrom_handler g h f = Inr (g', rv) \<Longrightarrow> reachable g'"
| event_handler:
    "reachable g \<Longrightarrow> rudp_event_handler g h f = Inr (g', rv) \<Longrightarrow> reachable g'"
| sendto:
    "reachable g \<Longrightarrow> rudp_sendto g h dat n to_ptr r1 r2 = Inr (g', es, rv) \<Longrightarrow> reachable g'"
| receive:
    "reachable g \<Longrightarrow> receive_callback g file pkt from = Inr (g', es, rv) \<Longrightarrow> reachable g'"
| timeout:
    "reachable g \<Longrightarrow> timeout_callback g ta = Inr (g', es, rv) \<Longrightarrow> reachable g'"

subsection \<open>Left-packed windows\<close>

text \<open>
  A window is left-packed when no empty slot is followed by an occupied one.  A sender
  is well-formed when its three arrays have \<^verbatim>\<open>RUDP_WINDOW\<close> entries and its window
  is left-packed.
\<close>

definition left_packed :: "rudp_packet option list \<Rightarrow> bool" where
  "left_packed w \<longleftrightarrow> (\<forall>n. Suc n < length w \<longrightarrow> w ! n = None \<longrightarrow> w ! Suc n = None)"

definition sender_ok :: "sender_session \<Rightarrow> bool" where
  "sender_ok s \<longleftrightarrow>
     length (sliding_window s) = RUDP_WINDOW \<and>
     length (retransmission_attempts s) = RUDP_WINDOW \<and>
     length (data_timeout_arg s) = RUDP_WINDOW \<and>
     left_packed (sliding_window s)"

definition windows_left_packed :: "rudp_socket_list list \<Rightarrow> bool" where
  "windows_left_packed g \<longleftrightarrow>
     (\<forall>sock \<in> set g. \<forall>cs \<in> set (sessions_list_head sock). \<forall>s. sender cs = Some s \<longrightarrow> sender_ok s)"

subsection \<open>What a refill transmits\<close>

text \<open>
  The DATA packets made from the first entries of the queue, numbered from the
  sender's sequence number on; the timer bundle of a packet; the effects of
  transmitting a list of packets; and the sender after \<open>k\<close> entries of the queue were
  moved into a window whose occupied slots are \<open>ps\<close>.
\<close>

fun data_packets :: "u_int32_t \<Rightarrow> data list \<Rightarrow> rudp_packet list" where
  "data_packets sq [] = []"
| "data_packets sq (d # ds) =
     create_rudp_packet RUDP_DATA (sq + 1) (len d) (Some (item d)) # data_packets (sq + 1) ds"

definition timer_for :: "rudp_socket_t \<Rightarrow> sockaddr_in \<Rightarrow> rudp_packet \<Rightarrow> timeoutargs" where
  "timer_for fl to p = \<lparr>fd = fl, packet = p, recipient = to\<rparr>"

definition transmissions :: "rudp_socket_t \<Rightarrow> sockaddr_in \<Rightarrow> rudp_packet list \<Rightarrow> effect list" where
  "transmissions fl to ps = concat (map (\<lambda>p. [Sendto fl p to, Event_timeout (timer_for fl to p)]) ps)"

definition filled ::
  "rudp_socket_t \<Rightarrow> sockaddr_in \<Rightarrow> rudp_packet list \<Rightarrow> nat \<Rightarrow> sender_session \<Rightarrow> sender_session" where
  "filled fl to ps k s =
     (let news = data_packets (s_seqno s) (take k (data_queue s)) in
      s\<lparr>s_seqno := s_seqno s + of_nat k,
        sliding_window := map Some (ps @ news) @ replicate (RUDP_WINDOW - length ps - k) None,
        retransmission_attempts :=
          take (length ps) (retransmission_attempts s) @ replicate k 0 @
          drop (length ps + k) (retransmission_attempts s),
        data_queue := drop k (data_queue s),
        data_timeout_arg :=
          take (length ps) (data_timeout_arg s) @ map (\<lambda>p. Some (timer_for fl to p)) news @
          drop (length ps + k) (data_timeout_arg s)\<rparr>)"

section \<open>The datagram on the wire\<close>

text \<open>
  \<^verbatim>\<open>send_packet\<close> hands \<^verbatim>\<open>sendto\<close> the address of the packet structure and
  \<^verbatim>\<open>sizeof(struct rudp_packet)\<close>; \<^verbatim>\<open>receive_callback\<close> reads that many bytes into a
  buffer and copies the buffer into a packet structure.  The datagram is therefore the
  memory image of the structure: the packed header of 8 bytes, the \<^verbatim>\<open>int\<close>
  \<^verbatim>\<open>payload_length\<close> of 4 bytes and the buffer of \<^verbatim>\<open>RUDP_MAXPKTSIZE\<close> bytes, with the
  integers in the byte order of the host (no field goes through \<^verbatim>\<open>htons\<close> or
  \<^verbatim>\<open>htonl\<close>).  The byte order is a parameter: \<open>True\<close> for a big-endian host.
\<close>

definition sizeof_rudp_packet :: nat where
  "sizeof_rudp_packet = 8 + 4 + RUDP_MAXPKTSIZE"

primrec le_bytes :: "nat \<Rightarrow> nat \<Rightarrow> u_int8_t list" where
  "le_bytes 0 v = []"
| "le_bytes (Suc k) v = of_nat (v mod 256) # le_bytes k (v div 256)"

primrec le_value :: "u_int8_t list \<Rightarrow> nat" where
  "le_value [] = 0"
| "le_value (b # bs) = unat b + 256 * le_value bs"

definition host_bytes :: "bool \<Rightarrow> nat \<Rightarrow> nat \<Rightarrow> u_int8_t list" where
  "host_bytes big k v = (if big then rev (le_bytes k v) else le_bytes k v)"

definition host_value :: "bool \<Rightarrow> u_int8_t list \<Rightarrow> nat" where
  "host_value big bs = le_value (if big then rev bs else bs)"

definition packet_image :: "bool \<Rightarrow> rudp_packet \<Rightarrow> u_int8_t list" where
  "packet_image big p =
     host_bytes big 2 (unat (version (header p))) @
     host_bytes big 2 (unat (type (header p))) @
     host_bytes big 4 (unat (seqno (header p))) @
     host_bytes big 4 (unat (word_of_int (payload_length p) :: 32 word)) @
     payload p"

definition packet_of_image :: "bool \<Rightarrow> u_int8_t list \<Rightarrow> rudp_packet" where
  "packet_of_image big bs =
     \<lparr>header = \<lparr>version = of_nat (host_value big (take 2 bs)),
                 type = of_nat (host_value big (take 2 (drop 2 bs))),
                 seqno = of_nat (host_value big (take 4 (drop 4 bs)))\<rparr>,
      payload_length = sint (of_nat (host_value big (take 4 (drop 8 bs))) :: 32 word),
      payload = take RUDP_MAXPKTSIZE (drop 12 bs)\<rparr>"

text \<open>The datagram \<^verbatim>\<open>sendto\<close> is given for a packet.\<close>

definition wire_datagram :: "bool \<Rightarrow> rudp_packet \<Rightarrow> u_int8_t list" where
  "wire_datagram big p = take sizeof_rudp_packet (packet_image big p)"

text \<open>
  \<^verbatim>\<open>recvfrom\<close> into the local buffer \<^verbatim>\<open>buf\<close>: the datagram, cut to the size of the
  buffer, overwrites the beginning of what the buffer held before (\<open>stack\<close>, of
  \<^verbatim>\<open>sizeof(struct rudp_packet)\<close> bytes); the number of bytes received is discarded.
\<close>

definition recvfrom_buf :: "u_int8_t list \<Rightarrow> u_int8_t list \<Rightarrow> u_int8_t list" where
  "recvfrom_buf stack datagram =
     take sizeof_rudp_packet datagram @ drop (length (take sizeof_rudp_packet datagram)) stack"

definition receive_datagram ::
  "bool \<Rightarrow> rudp_socket_list list \<Rightarrow> rudp_socket_t \<Rightarrow> u_int8_t list \<Rightarrow> u_int8_t list \<Rightarrow>
   sockaddr_in \<Rightarrow> fault + (rudp_socket_list list \<times> effect list \<times> int)" where
  "receive_datagram big g file stack datagram from =
     receive_callback g file (packet_of_image big (recvfrom_buf stack datagram)) from"

section \<open>Locating a session, and example states\<close>

text \<open>
  \<open>locates g file from i j\<close>: the search of the socket list for the descriptor
  \<open>file\<close> ends at position \<open>i\<close>, the sessions of that socket have not been freed, and
  the search of its sessions for the peer \<open>from\<close> ends at position \<open>j\<close>.
\<close>

definition locates ::
  "rudp_socket_list list \<Rightarrow> rudp_socket_t \<Rightarrow> sockaddr_in \<Rightarrow> nat \<Rightarrow> nat \<Rightarrow> bool" where
  "locates g file from i j \<longleftrightarrow>
     socket_search g file = Inr (Some i) \<and> \<not> sessions_freed (g ! i) \<and>
     session_search (sessions_list_head (g ! i)) from = Some j"

text \<open>A socket without sessions, a peer, and a socket whose only session has an open
  receiver half that expects sequence number 10.\<close>

definition example_socket :: "rudp_socket_t \<Rightarrow> rudp_socket_list" where
  "example_socket h =
     \<lparr>rsock = h, close_requested = False, recv_handler = None, handler = None,
      sessions_list_head = [], sessions_freed = False, socket_freed = False\<rparr>"

definition example_peer :: sockaddr_in where
  "example_peer = \<lparr>sin_family = 2, sin_port = 5000, sin_addr = 167772161\<rparr>"

definition example_receiver :: rudp_socket_list where
  "example_receiver =
     \<lparr>rsock = 3, close_requested = False, recv_handler = Some 1, handler = Some 2,
      sessions_list_head =
        [\<lparr>sender = None,
          receiver = Some \<lparr>r_status = OPEN, expected_seqno = 10, r_session_finished = False\<rparr>,
          address = example_peer\<rparr>],
      sessions_freed = False, socket_freed = False\<rparr>"


definition example_syn_v2 :: rudp_packet where
  "example_syn_v2 =
     \<lparr>header = \<lparr>version = 2, type = RUDP_SYN, seqno = 41\<rparr>,
      payload_length = 0, payload = replicate RUDP_MAXPKTSIZE 0\<rparr>"

definition example_new_receiver :: rudp_socket_list where
  "example_new_receiver =
     \<lparr>rsock = 3, close_requested = False, recv_handler = None, handler = None,
      sessions_list_head =
        [\<lparr>sender = None,
          receiver = Some \<lparr>r_status = OPENING, expected_seqno = 42, r_session_finished = False\<rparr>,
          address = example_peer\<rparr>],
      sessions_freed = False, socket_freed = False\<rparr>"

definition example_first_receiver :: rudp_socket_list where
  "example_first_receiver =
     \<lparr>rsock = 3, close_requested = False, recv_handler = None, handler = None,
      sessions_list_head =
        [\<lparr>sender = None,
          receiver = Some \<lparr>r_status = OPENING, expected_seqno = 1, r_session_finished = False\<rparr>,
          address = example_peer\<rparr>],
      sessions_freed = False, socket_freed = False\<rparr>"

text \<open>A DATA packet with the five bytes of \<open>hello\<close>, and a packet of a type the protocol
  does not know.\<close>

definition example_hello :: rudp_packet where
  "example_hello = create_rudp_packet RUDP_DATA 1 5 (Some [104, 101, 108, 108, 111])"

definition example_bad_type :: rudp_packet where
  "example_bad_type = create_rudp_packet 9 7 0 None"

text \<open>Senders: one that waits for the ACK of its SYN after \<open>n\<close> retransmissions, and
  an open one with a full window, whose second packet was retransmitted \<open>n\<close> times and
  whose third packet has used up its retransmissions.\<close>

definition example_syn_timer :: timeoutargs where
  "example_syn_timer =
     \<lparr>fd = 3, packet = create_rudp_packet RUDP_SYN 100 0 None, recipient = example_peer\<rparr>"

definition example_syn_sender :: "int \<Rightarrow> rudp_socket_list" where
  "example_syn_sender n =
     \<lparr>rsock = 3, close_requested = False, recv_handler = Some 1, handler = Some 2,
      sessions_list_head =
        [\<lparr>sender = Some
            \<lparr>s_status = SYN_SENT, s_seqno = 100,
             sliding_window = [None, None, None],
             retransmission_attempts = [0, 0, 0],
             data_queue = [\<lparr>item = [104, 101, 108, 108, 111], len = 5\<rparr>],
             s_session_finished = False,
             syn_timeout_arg = Some example_syn_timer, fin_timeout_arg = None,
             data_timeout_arg = [None, None, None],
             syn_retransmit_attempts = n, fin_retransmit_attempts = 0\<rparr>,
          receiver = None,
          address = example_peer\<rparr>],
      sessions_freed = False, socket_freed = False\<rparr>"

definition example_data :: "u_int32_t \<Rightarrow> rudp_packet" where
  "example_data n = create_rudp_packet RUDP_DATA n 5 (Some [104, 101, 108, 108, 111])"

definition example_data_timer :: "u_int32_t \<Rightarrow> timeoutargs" where
  "example_data_timer n = \<lparr>fd = 3, packet = example_data n, recipient = example_peer\<rparr>"

definition example_open :: "int \<Rightarrow> sender_session" where
  "example_open n =
     \<lparr>s_status = OPEN, s_seqno = 103,
      sliding_window = [Some (example_data 101), Some (example_data 102), Some (example_data 103)],
      retransmission_attempts = [0, n, 5],
      data_queue = [\<lparr>item = [119, 111, 114, 108, 100], len = 5\<rparr>],
      s_session_finished = False,
      syn_timeout_arg = Some example_syn_timer, fin_timeout_arg = None,
      data_timeout_arg = [Some (example_data_timer 101), Some (example_data_timer 102),
                          Some (example_data_timer 103)],
      syn_retransmit_attempts = 0, fin_retransmit_attempts = 0\<rparr>"

definition example_open_sender :: "int \<Rightarrow> rudp_socket_list" where
  "example_open_sender n =
     \<lparr>rsock = 3, close_requested = False, recv_handler = Some 1, handler = Some 2,
      sessions_list_head = [\<lparr>sender = Some (example_open n), receiver = None, address = example_peer\<rparr>],
      sessions_freed = False, socket_freed = False\<rparr>"

text \<open>An ACK; a DATA packet with the five bytes of \<open>world\<close> and its timer bundle; the
  open sender after the ACK of its first packet; a sender that has queued \<open>hello\<close> and
  \<open>world\<close> behind its SYN, and the same sender after the SYN was acknowledged.\<close>

definition example_ack :: "u_int32_t \<Rightarrow> rudp_packet" where
  "example_ack n = create_rudp_packet RUDP_ACK n 0 None"

definition example_world :: "u_int32_t \<Rightarrow> rudp_packet" where
  "example_world n = create_rudp_packet RUDP_DATA n 5 (Some [119, 111, 114, 108, 100])"

definition example_world_timer :: "u_int32_t \<Rightarrow> timeoutargs" where
  "example_world_timer n = \<lparr>fd = 3, packet = example_world n, recipient = example_peer\<rparr>"

definition example_open_acked :: "int \<Rightarrow> rudp_socket_list" where
  "example_open_acked n =
     \<lparr>rsock = 3, close_requested = False, recv_handler = Some 1, handler = Some 2,
      sessions_list_head =
        [\<lparr>sender = Some
            \<lparr>s_status = OPEN, s_seqno = 104,
             sliding_window = [Some (example_data 102), Some (example_data 103), Some (example_world 104)],
             retransmission_attempts = [n, 5, 0],
             data_queue = [],
             s_session_finished = False,
             syn_timeout_arg = Some example_syn_timer, fin_timeout_arg = None,
             data_timeout_arg = [Some (example_data_timer 102), Some (example_data_timer 103),
                                 Some (example_world_timer 104)],
             syn_retransmit_attempts = 0, fin_retransmit_attempts = 0\<rparr>,
          receiver = None, address = example_peer\<rparr>],
      sessions_freed = False, socket_freed = False\<rparr>"

definition example_syn_queued :: rudp_socket_list where
  "example_syn_queued =
     \<lparr>rsock = 3, close_requested = False, recv_handler = Some 1, handler = Some 2,
      sessions_list_head =
        [\<lparr>sender = Some
            \<lparr>s_status = SYN_SENT, s_seqno = 100,
             sliding_window = [None, None, None],
             retransmission_attempts = [0, 0, 0],
             data_queue = [\<lparr>item = [104, 101, 108, 108, 111], len = 5\<rparr>,
                           \<lparr>item = [119, 111, 114, 108, 100], len = 5\<rparr>],
             s_session_finished = False,
             syn_timeout_arg = Some example_syn_timer, fin_timeout_arg = None,
             data_timeout_arg = [None, None, None],
             syn_retransmit_attempts = 0, fin_retransmit_attempts = 0\<rparr>,
          receiver = None,
          address = example_peer\<rparr>],
      sessions_freed = False, socket_freed = False\<rparr>"

definition example_established :: rudp_socket_list where
  "example_established =
     \<lparr>rsock = 3, close_requested = False, recv_handler = Some 1, handler = Some 2,
      sessions_list_head =
        [\<lparr>sender = Some
            \<lparr>s_status = OPEN, s_seqno = 102,
             sliding_window = [Some (example_data 101), Some (example_world 102), None],
             retransmission_attempts = [0, 0, 0],
             data_queue = [],
             s_session_finished = False,
             syn_timeout_arg = Some example_syn_timer, fin_timeout_arg = None,
             data_timeout_arg = [Some (example_data_timer 101), Some (example_world_timer 102), None],
             syn_retransmit_attempts = 0, fin_retransmit_attempts = 0\<rparr>,
          receiver = None,
          address = example_peer\<rparr>],
      sessions_freed = False, socket_freed = False\<rparr>"

section \<open>Sequence comparison\<close>

lemma mod_shift16:
  fixes x :: int
  assumes "0 \<le> x" and "x < 65536"
  shows "(x + 32768) mod 65536 - 32768 = (if x < 32768 then x else x - 65536)"
proof (cases "x < 32768")
  case True
  then have "(x + 32768) mod 65536 = x + 32768"
    using assms by (intro mod_pos_pos_trivial) auto
  then show ?thesis using True by simp
next
  case False
  have "x + 32768 = (x - 32768) + 65536" by arith
  then have "(x + 32768) mod 65536 = ((x - 32768) + 65536) mod 65536" by (rule arg_cong)
  also have "\<dots> = (x - 32768) mod 65536" by (simp only: mod_add_self2)
  also have "\<dots> = x - 32768"
    using False assms by (intro mod_pos_pos_trivial) auto
  finally show ?thesis using False by simp
qed

lemma sint16: "sint (w :: 16 word) = (if uint w < 2 ^ 15 then uint w else uint w - 2 ^ 16)"
proof -
  have lo: "0 \<le> uint w" by simp
  have hi: "uint w < 65536" using uint_bounded [of w] by simp
  have "sint w = (uint w + 32768) mod 65536 - 32768"
    by (simp add: sint_uint signed_take_bit_eq_take_bit_shift take_bit_eq_mod)
  then show ?thesis using mod_shift16 [OF lo hi] by simp
qed

lemma uint_ucast_32_16: "uint (ucast (x :: 32 word) :: 16 word) = uint x mod 2 ^ 16"
  by (simp add: take_bit_eq_mod unsigned_ucast_eq)

lemma uint_diff32: "uint (a - b :: 32 word) = (uint a - uint b) mod 2 ^ 32"
  by (simp add: uint_word_ariths)

lemma short_cast_diff: "short_cast (a - b) = spec_diff_i16 a b"
  unfolding short_cast_def sint16 uint_ucast_32_16 uint_diff32 spec_diff_i16_def Let_def ..

text \<open>
  Claim C3.  For all 32-bit unsigned \<open>a\<close> and \<open>b\<close>, \<open>SEQ_LT a b\<close> holds exactly when the
  difference \<open>a - b\<close>, truncated to a signed 16-bit integer, is negative; \<open>SEQ_LEQ\<close>,
  \<open>SEQ_GT\<close> and \<open>SEQ_GEQ\<close> apply \<open>\<le>\<close>, \<open>>\<close> and \<open>\<ge>\<close> to the same truncated difference.
\<close>

theorem seq_comparators_signed_16bit_difference:
  "(SEQ_LT a b \<longleftrightarrow> spec_diff_i16 a b < 0) \<and>
   (SEQ_LEQ a b \<longleftrightarrow> spec_diff_i16 a b \<le> 0) \<and>
   (SEQ_GT a b \<longleftrightarrow> spec_diff_i16 a b > 0) \<and>
   (SEQ_GEQ a b \<longleftrightarrow> spec_diff_i16 a b \<ge> 0)"
  by (simp add: SEQ_LT_def SEQ_LEQ_def SEQ_GT_def SEQ_GEQ_def short_cast_diff)


section \<open>Basic facts about the searches and the dispatcher\<close>

lemma socket_search_Some:
  "socket_search g h = Inr (Some i) \<Longrightarrow> i < length g \<and> rsock (g ! i) = h \<and> \<not> socket_freed (g ! i)"
proof (induction g arbitrary: i)
  case Nil
  then show ?case by simp
next
  case (Cons s ss)
  then show ?case
    by (auto split: if_splits sum.splits option.splits)
qed

lemma session_search_Some:
  "session_search ss a = Some j \<Longrightarrow> j < length ss \<and> compare_sockaddr (address (ss ! j)) a"
proof (induction ss arbitrary: j)
  case Nil
  then show ?case by simp
next
  case (Cons s ss)
  then show ?case by (auto split: if_splits)
qed

lemma locates_facts:
  assumes "locates g file from i j"
  shows "g \<noteq> []" "i < length g" "sessions_list_head (g ! i) \<noteq> []"
    "j < length (sessions_list_head (g ! i))"
    "socket_search g file = Inr (Some i)"
    "sessions_lookup (g ! i) from = Inr (Some j)"
    "session_at g i j = Some (sessions_list_head (g ! i) ! j)"
  using assms socket_search_Some [of g "file" i]
    session_search_Some [of "sessions_list_head (g ! i)" "from" j]
  by (auto simp: locates_def sessions_lookup_def session_at_def)

lemma and_then_Inr [simp]: "and_then (Inr (g, es)) f = (case f g of Inl e \<Rightarrow> Inl e | Inr (g', es') \<Rightarrow> Inr (g', es @ es'))"
  by (simp add: and_then_def)

lemma and_then_Inl [simp]: "and_then (Inl e) f = Inl e"
  by (simp add: and_then_def)

lemma packet_types_distinct [simp]:
  "RUDP_DATA \<noteq> RUDP_ACK" "RUDP_DATA \<noteq> RUDP_SYN" "RUDP_DATA \<noteq> RUDP_FIN"
  "RUDP_ACK \<noteq> RUDP_DATA" "RUDP_ACK \<noteq> RUDP_SYN" "RUDP_ACK \<noteq> RUDP_FIN"
  "RUDP_SYN \<noteq> RUDP_DATA" "RUDP_SYN \<noteq> RUDP_ACK" "RUDP_SYN \<noteq> RUDP_FIN"
  "RUDP_FIN \<noteq> RUDP_DATA" "RUDP_FIN \<noteq> RUDP_ACK" "RUDP_FIN \<noteq> RUDP_SYN"
  by (simp_all add: RUDP_DATA_def RUDP_ACK_def RUDP_SYN_def RUDP_FIN_def)

lemma receive_callback_found:
  assumes "locates g file from i j"
  shows "receive_callback g file pkt from =
     (case and_then
             (if type (header pkt) = RUDP_SYN then on_syn g i j file (header pkt) from
              else Inr (g, []))
             (\<lambda>g1. if type (header pkt) = RUDP_ACK then on_ack g1 i j file (header pkt) from
                    else if type (header pkt) = RUDP_DATA then on_data g1 i j file pkt from
                    else if type (header pkt) = RUDP_FIN then on_fin g1 i j file (header pkt) from
                    else Inr (g1, []))
      of Inl e \<Rightarrow> Inl e | Inr (g', es) \<Rightarrow> Inr (g', es, 0))"
  using locates_facts [OF assms]
  by (simp add: receive_callback_def Let_def)

lemma put_session_same:
  "session_at g i j = Some cs \<Longrightarrow> put_session g i j cs = g"
  by (auto simp: session_at_def put_session_def split: if_splits)

lemma receive_callback_data:
  assumes "locates g file from i j" and "type (header pkt) = RUDP_DATA"
  shows "receive_callback g file pkt from =
     (case on_data g i j file pkt from of Inl e \<Rightarrow> Inl e | Inr (g', es) \<Rightarrow> Inr (g', es, 0))"
  using assms(2) by (simp add: receive_callback_found [OF assms(1)] split: sum.splits)

lemma on_data_duplicate:
  assumes "session_at g i j = Some cs" and "receiver cs = Some r"
    and "SEQ_GEQ (seqno (header pkt)) (expected_seqno r - of_nat RUDP_WINDOW)"
    and "SEQ_LT (seqno (header pkt)) (expected_seqno r)"
  shows "on_data g i j file pkt from =
    Inr (g, [Sendto file (create_rudp_packet RUDP_ACK (seqno (header pkt) + 1) 0 None) from])"
proof -
  have ne: "seqno (header pkt) \<noteq> expected_seqno r"
    using assms(4) by (auto simp: SEQ_LT_def short_cast_def)
  have same: "cs\<lparr>receiver := Some r\<rparr> = cs"
    using assms(2) by simp
  show ?thesis
    using assms ne
    by (simp add: on_data_def Let_def same put_session_same send_packet_def)
qed



section \<open>Duplicate DATA\<close>

text \<open>
  Claim C1.  Let the socket and the session of the sending peer be found, and let the
  session's receiver half be in state \<open>OPEN\<close> with expected sequence number \<open>e\<close>.  A DATA
  packet whose sequence number \<open>s\<close> lies in the retrospective window, that is
  \<open>SEQ_GEQ s (e - RUDP_WINDOW)\<close> and \<open>SEQ_LT s e\<close>, makes \<^verbatim>\<open>receive_callback\<close> send
  exactly one packet, the ACK with sequence number \<open>s + 1\<close>; the receive handler is not
  called and the state, the expected sequence number included, stays as it was, so the
  payload is not delivered a second time however often the packet is repeated.
\<close>

theorem duplicate_data_reacknowledged_not_delivered:
  assumes "locates g file from i j"
    and "receiver (sessions_list_head (g ! i) ! j) = Some r"
    and "r_status r = OPEN"
    and "type (header pkt) = RUDP_DATA"
    and "SEQ_GEQ (seqno (header pkt)) (expected_seqno r - of_nat RUDP_WINDOW)"
    and "SEQ_LT (seqno (header pkt)) (expected_seqno r)"
  shows "receive_callback g file pkt from =
           Inr (g, [Sendto file (create_rudp_packet RUDP_ACK (seqno (header pkt) + 1) 0 None) from], 0)"
  using on_data_duplicate [OF locates_facts(7) [OF assms(1)] assms(2) assms(5) assms(6)]
  by (simp add: receive_callback_data [OF assms(1) assms(4)])

lemma locates_example_receiver: "locates [example_receiver] 3 example_peer 0 0"
  by (simp add: locates_def example_receiver_def example_peer_def compare_sockaddr_def)

theorem duplicate_data_reacknowledged_not_delivered_witness:
  "locates [example_receiver] 3 example_peer 0 0 \<and>
   SEQ_GEQ 9 (10 - of_nat RUDP_WINDOW) \<and> SEQ_LT 9 10 \<and>
   receive_callback [example_receiver] 3 (create_rudp_packet RUDP_DATA 9 5 (Some [104, 101, 108, 108, 111]))
       example_peer =
     Inr ([example_receiver], [Sendto 3 (create_rudp_packet RUDP_ACK 10 0 None) example_peer], 0)"
proof -
  have w: "SEQ_GEQ 9 (10 - of_nat RUDP_WINDOW)" "SEQ_LT 9 10"
    unfolding SEQ_GEQ_def SEQ_LT_def short_cast_diff
    by (simp_all add: spec_diff_i16_def RUDP_WINDOW_def)
  have r: "receiver (sessions_list_head ([example_receiver] ! 0) ! 0) =
             Some \<lparr>r_status = OPEN, expected_seqno = 10, r_session_finished = False\<rparr>"
    by (simp add: example_receiver_def)
  show ?thesis
    using duplicate_data_reacknowledged_not_delivered
      [OF locates_example_receiver r, of "create_rudp_packet RUDP_DATA 9 5 (Some [104, 101, 108, 108, 111])"]
      w locates_example_receiver
    by (simp add: create_rudp_packet_def)
qed


section \<open>Handler registration\<close>

lemma socket_walk_search:
  "socket_search g h = Inr (Some i) \<Longrightarrow> socket_walk g h = Inr i"
proof (induction g h arbitrary: i rule: socket_walk.induct)
  case (1 h)
  then show ?case by simp
next
  case (2 s h)
  then show ?case by (auto split: if_splits)
next
  case (3 s s' ss h)
  then show ?case
    by (auto split: if_splits sum.splits option.splits)
qed


text \<open>
  Claim C10.  \<^verbatim>\<open>rudp_recvfrom_handler\<close> and \<^verbatim>\<open>rudp_event_handler\<close> return \<open>-1\<close> and
  leave the socket list as it is when the function pointer is null.  With a function
  pointer that is not null and the handle of a known socket (the search finds it at
  position \<open>i\<close>) they store the pointer in that socket, change nothing else and return 0.
\<close>

theorem handler_registration:
  "rudp_recvfrom_handler g rsocket None = Inr (g, - 1) \<and>
   rudp_event_handler g rsocket None = Inr (g, - 1) \<and>
   (socket_search g rsocket = Inr (Some i) \<longrightarrow>
      i < length g \<and> rsock (g ! i) = rsocket \<and>
      rudp_recvfrom_handler g rsocket (Some f) =
        Inr (g[i := (g ! i)\<lparr>recv_handler := Some f\<rparr>], 0) \<and>
      rudp_event_handler g rsocket (Some f) =
        Inr (g[i := (g ! i)\<lparr>handler := Some f\<rparr>], 0))"
proof -
  have "rudp_recvfrom_handler g rsocket (Some f) =
          Inr (g[i := (g ! i)\<lparr>recv_handler := Some f\<rparr>], 0) \<and>
        rudp_event_handler g rsocket (Some f) =
          Inr (g[i := (g ! i)\<lparr>handler := Some f\<rparr>], 0)"
    if s: "socket_search g rsocket = Inr (Some i)"
    using socket_walk_search [OF s] socket_search_Some [OF s]
    by (simp add: rudp_recvfrom_handler_def rudp_event_handler_def)
  then show ?thesis
    using socket_search_Some [of g rsocket i]
    by (simp add: rudp_recvfrom_handler_def rudp_event_handler_def)
qed

theorem handler_registration_witness:
  "socket_search [example_socket 3, example_socket 4] 4 = Inr (Some 1) \<and>
   rudp_recvfrom_handler [example_socket 3, example_socket 4] 4 (Some 7) =
     Inr ([example_socket 3, (example_socket 4)\<lparr>recv_handler := Some 7\<rparr>], 0) \<and>
   rudp_event_handler [example_socket 3, example_socket 4] 4 (Some 9) =
     Inr ([example_socket 3, (example_socket 4)\<lparr>handler := Some 9\<rparr>], 0) \<and>
   rudp_event_handler [example_socket 3, (example_socket 4)\<lparr>handler := Some 9\<rparr>] 4 None =
     Inr ([example_socket 3, (example_socket 4)\<lparr>handler := Some 9\<rparr>], - 1)"
proof -
  have s: "socket_search [example_socket 3, example_socket 4] 4 = Inr (Some 1)"
    by (simp add: example_socket_def)
  show ?thesis
    using s handler_registration [of "[example_socket 3, example_socket 4]" 4 1 7]
      handler_registration [of "[example_socket 3, example_socket 4]" 4 1 9]
      handler_registration [of "[example_socket 3, (example_socket 4)\<lparr>handler := Some 9\<rparr>]" 4]
    by simp
qed



section \<open>FIN at the receiver\<close>







section \<open>Datagrams that are short, of another version or of unknown type\<close>

lemma on_syn_version:
  "on_syn g i j file (h\<lparr>version := v\<rparr>) from = on_syn g i j file h from"
  by (simp add: on_syn_def Let_def cong: option.case_cong if_cong)

lemma on_ack_version:
  "on_ack g i j file (h\<lparr>version := v\<rparr>) from = on_ack g i j file h from"
  by (simp add: on_ack_def Let_def cong: option.case_cong if_cong)

lemma on_fin_version:
  "on_fin g i j file (h\<lparr>version := v\<rparr>) from = on_fin g i j file h from"
  by (simp add: on_fin_def Let_def cong: option.case_cong if_cong)

lemma on_data_version:
  "on_data g i j file (p\<lparr>header := (header p)\<lparr>version := v\<rparr>\<rparr>) from = on_data g i j file p from"
  by (simp add: on_data_def Let_def cong: option.case_cong if_cong)

lemma accept_syn_version:
  "accept_syn g i file (h\<lparr>version := v\<rparr>) from = accept_syn g i file h from"
  by (simp add: accept_syn_def Let_def cong: option.case_cong if_cong)

lemma receive_callback_version:
  "receive_callback g file (p\<lparr>header := (header p)\<lparr>version := v\<rparr>\<rparr>) from =
   receive_callback g file p from"
  by (simp add: receive_callback_def Let_def on_syn_version on_ack_version on_fin_version
      on_data_version accept_syn_version cong: option.case_cong sum.case_cong if_cong)

lemma receive_callback_unknown_type:
  assumes "socket_search g file = Inr (Some i)" and "\<not> sessions_freed (g ! i)"
    and "type (header p) \<notin> {RUDP_DATA, RUDP_ACK, RUDP_SYN, RUDP_FIN}"
  shows "receive_callback g file p from = Inr (g, [], 0)"
proof -
  have "g \<noteq> []" using assms(1) by auto
  then show ?thesis
    using assms
    by (simp add: receive_callback_def Let_def sessions_lookup_def split: option.splits)
qed

lemma recvfrom_buf_idem:
  "length stack = sizeof_rudp_packet \<Longrightarrow> length stack' = sizeof_rudp_packet \<Longrightarrow>
     recvfrom_buf stack' (recvfrom_buf stack datagram) = recvfrom_buf stack datagram"
  by (simp add: recvfrom_buf_def)

text \<open>
  Claim C4, as the code has it.  \<^verbatim>\<open>receive_callback\<close> looks neither at the version
  field nor at the number of bytes received: changing the version of a packet changes
  nothing in what the dispatcher does, and a datagram shorter than the buffer is treated
  as the datagram made of its bytes followed by what the buffer held before.  A packet
  whose type is none of DATA, ACK, SYN and FIN, arriving on a known socket, is ignored:
  the state is unchanged, nothing is sent and no callback is called.
\<close>

theorem version_and_length_not_checked_unknown_type_ignored:
  "receive_callback g fdes (p\<lparr>header := (header p)\<lparr>version := v\<rparr>\<rparr>) peer =
     receive_callback g fdes p peer \<and>
   (length stack = sizeof_rudp_packet \<and> length stack' = sizeof_rudp_packet \<longrightarrow>
      receive_datagram big g fdes stack datagram peer =
        receive_datagram big g fdes stack' (recvfrom_buf stack datagram) peer) \<and>
   (socket_search g fdes = Inr (Some i) \<and> \<not> sessions_freed (g ! i) \<and>
    type (header p) \<notin> {RUDP_DATA, RUDP_ACK, RUDP_SYN, RUDP_FIN} \<longrightarrow>
      receive_callback g fdes p peer = Inr (g, [], 0))"
  by (simp add: receive_callback_version receive_callback_unknown_type receive_datagram_def
      recvfrom_buf_idem)

theorem version_and_length_not_checked_unknown_type_ignored_witness:
  "length (replicate sizeof_rudp_packet (0 :: u_int8_t)) = sizeof_rudp_packet \<and>
   receive_datagram False [example_socket 3] 3 (replicate sizeof_rudp_packet 0) [1, 0, 4, 0]
       example_peer =
     receive_datagram False [example_socket 3] 3 (replicate sizeof_rudp_packet 0)
       (recvfrom_buf (replicate sizeof_rudp_packet 0) [1, 0, 4, 0]) example_peer \<and>
   socket_search [example_receiver] 3 = Inr (Some 0) \<and>
   \<not> sessions_freed ([example_receiver] ! 0) \<and>
   type (header example_bad_type) \<notin> {RUDP_DATA, RUDP_ACK, RUDP_SYN, RUDP_FIN} \<and>
   receive_callback [example_receiver] 3 example_bad_type example_peer =
     Inr ([example_receiver], [], 0)"
proof -
  have t: "type (header example_bad_type) \<notin> {RUDP_DATA, RUDP_ACK, RUDP_SYN, RUDP_FIN}"
    by (simp add: example_bad_type_def create_rudp_packet_def
        RUDP_DATA_def RUDP_ACK_def RUDP_SYN_def RUDP_FIN_def)
  have s: "socket_search [example_receiver] 3 = Inr (Some 0)"
    "\<not> sessions_freed ([example_receiver] ! 0)"
    by (simp_all add: example_receiver_def)
  have l: "length (replicate sizeof_rudp_packet (0 :: u_int8_t)) = sizeof_rudp_packet"
    by simp
  have a: "receive_datagram False [example_socket 3] 3 (replicate sizeof_rudp_packet 0) [1, 0, 4, 0]
       example_peer =
     receive_datagram False [example_socket 3] 3 (replicate sizeof_rudp_packet 0)
       (recvfrom_buf (replicate sizeof_rudp_packet 0) [1, 0, 4, 0]) example_peer"
    by (rule version_and_length_not_checked_unknown_type_ignored
          [THEN conjunct2, THEN conjunct1, THEN mp]) simp
  have b: "receive_callback [example_receiver] 3 example_bad_type example_peer =
     Inr ([example_receiver], [], 0)"
    by (rule version_and_length_not_checked_unknown_type_ignored
          [where i = 0, THEN conjunct2, THEN conjunct2, THEN mp]) (intro conjI s t)
  show ?thesis
    by (intro conjI l a s t b)
qed

lemma le_value_zeros: "le_value (replicate k 0) = 0"
  by (induction k) simp_all

lemma short_image:
  "packet_of_image False (recvfrom_buf (replicate sizeof_rudp_packet 0) [1, 0, 4, 0]) =
     \<lparr>header = \<lparr>version = 1, type = RUDP_SYN, seqno = 0\<rparr>, payload_length = 0,
      payload = replicate RUDP_MAXPKTSIZE 0\<rparr>"
  by (simp add: packet_of_image_def recvfrom_buf_def sizeof_rudp_packet_def RUDP_MAXPKTSIZE_def
      host_value_def RUDP_SYN_def le_value_zeros)

text \<open>The claim as it was stated, with short datagrams and datagrams of another version
  rejected, fails: a SYN of version 2 creates a receiver session and is acknowledged,
  and so is a datagram of four bytes that lands in a zeroed buffer.\<close>

theorem unchecked_datagram_accepted_counterexample:
  "version (header example_syn_v2) \<noteq> RUDP_VERSION \<and>
   receive_callback [example_socket 3] 3 example_syn_v2 example_peer =
     Inr ([example_new_receiver],
          [Sendto 3 (create_rudp_packet RUDP_ACK 42 0 None) example_peer], 0) \<and>
   length [1, 0, 4, 0 :: u_int8_t] < 8 \<and>
   receive_datagram False [example_socket 3] 3 (replicate sizeof_rudp_packet 0) [1, 0, 4, 0]
       example_peer =
     Inr ([example_first_receiver],
          [Sendto 3 (create_rudp_packet RUDP_ACK 1 0 None) example_peer], 0)"
  by (simp add: receive_datagram_def short_image receive_callback_def accept_syn_def
      create_receiver_session_def send_packet_def example_syn_v2_def RUDP_VERSION_def
      example_socket_def example_first_receiver_def example_new_receiver_def)


section \<open>The image of a packet and its length\<close>

lemma length_le_bytes [simp]: "length (le_bytes k v) = k"
  by (induction k arbitrary: v) simp_all

lemma le_value_le_bytes: "le_value (le_bytes k v) = v mod 256 ^ k"
proof (induction k arbitrary: v)
  case 0
  show ?case by simp
next
  case (Suc k)
  have "unat (of_nat (v mod 256) :: u_int8_t) = v mod 256"
    by (simp add: unat_of_nat)
  then show ?case
    by (simp add: Suc mod_mult2_eq)
qed

lemma length_host_bytes [simp]: "length (host_bytes big k v) = k"
  by (simp add: host_bytes_def)

lemma host_value_host_bytes: "host_value big (host_bytes big k v) = v mod 256 ^ k"
  by (simp add: host_value_def host_bytes_def le_value_le_bytes)

lemma host_word16: "of_nat (host_value big (host_bytes big 2 (unat (w :: 16 word)))) = w"
proof -
  have "unat w < 256 ^ 2" using unsigned_less [of w, where 'a = nat] by simp
  then show ?thesis by (simp add: host_value_host_bytes)
qed

lemma host_word32: "of_nat (host_value big (host_bytes big 4 (unat (w :: 32 word)))) = w"
proof -
  have "unat w < 256 ^ 4" using unsigned_less [of w, where 'a = nat] by simp
  then show ?thesis by (simp add: host_value_host_bytes)
qed

lemma sint_word_of_int_small:
  assumes "0 \<le> n" and "n \<le> 1000"
  shows "sint (word_of_int n :: 32 word) = n"
  using assms by (simp add: sint_sbintrunc' signed_take_bit_int_eq_self_iff)

lemma packet_of_image_image:
  assumes "length (payload p) = RUDP_MAXPKTSIZE" and "0 \<le> payload_length p"
    and "payload_length p \<le> 1000"
  shows "packet_of_image big (packet_image big p) = p"
  using assms
  by (simp add: packet_of_image_def packet_image_def host_word16 host_word32
      sint_word_of_int_small)


lemma length_packet_image:
  "length (packet_image big p) = 12 + length (payload p)"
  by (simp add: packet_image_def)

lemma length_create_payload:
  assumes "n \<le> int RUDP_MAXPKTSIZE"
  shows "length (payload (create_rudp_packet ty sq n pl)) = RUDP_MAXPKTSIZE"
  using assms by (cases pl) (auto simp: create_rudp_packet_def)

lemma length_wire_datagram:
  assumes "n \<le> int RUDP_MAXPKTSIZE"
  shows "length (wire_datagram big (create_rudp_packet ty sq n pl)) = sizeof_rudp_packet"
  by (simp add: wire_datagram_def length_packet_image length_create_payload [OF assms]
      sizeof_rudp_packet_def)

text \<open>
  Claim C5, as the code has it.  For every packet the engine builds (a payload length
  between 0 and \<^verbatim>\<open>RUDP_MAXPKTSIZE\<close>), the datagram handed to \<^verbatim>\<open>sendto\<close> is the whole
  packet structure and always has \<^verbatim>\<open>sizeof(struct rudp_packet)\<close> bytes: the 8 bytes of
  the header (version, type, sequence number, each in host byte order), then the 4
  bytes of the payload length, then the buffer of \<^verbatim>\<open>RUDP_MAXPKTSIZE\<close> bytes that holds
  the payload followed by zeros.  The receiver gets the packet, its payload length
  included, back from the fields of that image, not from the length of the datagram.
\<close>

theorem datagram_is_whole_packet_structure:
  assumes "0 \<le> n" and "n \<le> int RUDP_MAXPKTSIZE"
  shows "length (wire_datagram big (create_rudp_packet ty sq n pl)) = sizeof_rudp_packet \<and>
         take 8 (wire_datagram big (create_rudp_packet ty sq n pl)) =
           host_bytes big 2 (unat RUDP_VERSION) @ host_bytes big 2 (unat ty) @
           host_bytes big 4 (unat sq) \<and>
         take 4 (drop 8 (wire_datagram big (create_rudp_packet ty sq n pl))) =
           host_bytes big 4 (nat n) \<and>
         drop 12 (wire_datagram big (create_rudp_packet ty sq n pl)) =
           (case pl of None \<Rightarrow> replicate RUDP_MAXPKTSIZE 0
            | Some bs \<Rightarrow> take (nat n) bs @ replicate (RUDP_MAXPKTSIZE - length (take (nat n) bs)) 0) \<and>
         packet_of_image big (wire_datagram big (create_rudp_packet ty sq n pl)) =
           create_rudp_packet ty sq n pl"
proof -
  let ?p = "create_rudp_packet ty sq n pl"
  have len: "length (payload ?p) = RUDP_MAXPKTSIZE"
    by (rule length_create_payload [OF assms(2)])
  have w: "wire_datagram big ?p = packet_image big ?p"
    by (simp add: wire_datagram_def length_packet_image len sizeof_rudp_packet_def)
  have pl: "payload_length ?p = n"
    by (simp add: create_rudp_packet_def)
  have n: "unat (word_of_int n :: 32 word) = nat n"
    using assms by (simp add: RUDP_MAXPKTSIZE_def unat_eq_nat_uint uint_word_of_int take_bit_eq_mod)
  have rt: "packet_of_image big (packet_image big ?p) = ?p"
    using assms by (intro packet_of_image_image) (simp_all add: len pl RUDP_MAXPKTSIZE_def)
  show ?thesis
    unfolding w
    apply (intro conjI)
        apply (simp add: length_packet_image len sizeof_rudp_packet_def)
       apply (simp add: packet_image_def create_rudp_packet_def)
      apply (simp add: packet_image_def pl n)
     apply (simp add: packet_image_def) apply (simp add: create_rudp_packet_def)
    apply (rule rt)
    done
qed




lemma host_bytes_5: "host_bytes False 4 (nat 5) = [5, 0, 0, 0]"
  by code_simp

theorem datagram_is_whole_packet_structure_witness:
  "(0 :: int) \<le> 5 \<and> 5 \<le> int RUDP_MAXPKTSIZE \<and>
   length (wire_datagram False example_hello) = sizeof_rudp_packet \<and>
   take 4 (drop 8 (wire_datagram False example_hello)) = [5, 0, 0, 0] \<and>
   packet_of_image False (wire_datagram False example_hello) = example_hello"
proof -
  have h: "(0 :: int) \<le> 5" "5 \<le> int RUDP_MAXPKTSIZE"
    by (simp_all add: RUDP_MAXPKTSIZE_def)
  show ?thesis
    using datagram_is_whole_packet_structure
      [OF h, of False RUDP_DATA 1 "Some [104, 101, 108, 108, 111]"] h
    by (simp only: example_hello_def host_bytes_5)
qed

text \<open>The claim as it was stated, with the payload length equal to the length of the
  datagram minus 8, fails: the datagram that carries the five bytes of \<open>hello\<close> has 1012
  bytes.\<close>

theorem datagram_length_is_constant_counterexample:
  "payload_length example_hello = 5 \<and>
   length (wire_datagram False example_hello) = 1012 \<and>
   int (length (wire_datagram False example_hello)) - 8 \<noteq> payload_length example_hello"
proof -
  have "(5 :: int) \<le> int RUDP_MAXPKTSIZE" by (simp add: RUDP_MAXPKTSIZE_def)
  then have "length (wire_datagram False example_hello) = sizeof_rudp_packet"
    unfolding example_hello_def by (rule length_wire_datagram)
  moreover have "payload_length example_hello = 5"
    by (simp add: example_hello_def create_rudp_packet_def)
  ultimately show ?thesis
    by (simp add: sizeof_rudp_packet_def RUDP_MAXPKTSIZE_def)
qed



section \<open>Writing back at a position\<close>

lemma socket_search_cong:
  "map rsock g' = map rsock g \<Longrightarrow> map socket_freed g' = map socket_freed g \<Longrightarrow>
     socket_search g' h = socket_search g h"
proof (induction g arbitrary: g')
  case Nil
  then show ?case by simp
next
  case (Cons s ss)
  from Cons.prems obtain s' ss' where g': "g' = s' # ss'" by (cases g') auto
  from Cons.prems have hd: "rsock s' = rsock s" "socket_freed s' = socket_freed s"
    and tl: "map rsock ss' = map rsock ss" "map socket_freed ss' = map socket_freed ss"
    by (simp_all add: g')
  have "socket_search ss' h = socket_search ss h"
    using tl by (rule Cons.IH)
  then show ?case
    by (simp add: g' hd)
qed

lemma map_update_same:
  "f y = f (g ! i) \<Longrightarrow> map f (g[i := y]) = map f g"
  by (cases "i < length g") (simp_all add: map_update list_update_same_conv list_update_beyond)

lemma length_put_session [simp]: "length (put_session g i j cs) = length g"
  by (simp add: put_session_def)

lemma put_session_fields [simp]:
  "map rsock (put_session g i j cs) = map rsock g"
  "map socket_freed (put_session g i j cs) = map socket_freed g"
  "map sessions_freed (put_session g i j cs) = map sessions_freed g"
  "map close_requested (put_session g i j cs) = map close_requested g"
  "map handler (put_session g i j cs) = map handler g"
  "map recv_handler (put_session g i j cs) = map recv_handler g"
  by (simp_all add: put_session_def map_update_same)

lemma socket_search_put_session [simp]:
  "socket_search (put_session g i j cs) h = socket_search g h"
  by (rule socket_search_cong) simp_all

lemma nth_put_session_fields:
  assumes "k < length g"
  shows "rsock (put_session g i j cs ! k) = rsock (g ! k)"
    "socket_freed (put_session g i j cs ! k) = socket_freed (g ! k)"
    "sessions_freed (put_session g i j cs ! k) = sessions_freed (g ! k)"
    "close_requested (put_session g i j cs ! k) = close_requested (g ! k)"
    "handler (put_session g i j cs ! k) = handler (g ! k)"
    "recv_handler (put_session g i j cs ! k) = recv_handler (g ! k)"
  using assms by (cases "k = i"; simp add: put_session_def)+

lemma sessions_put_session:
  "i < length g \<Longrightarrow>
     sessions_list_head (put_session g i j cs ! i) = (sessions_list_head (g ! i))[j := cs]"
  by (simp add: put_session_def)

lemma session_search_update:
  "j < length ss \<Longrightarrow> address cs = address (ss ! j) \<Longrightarrow>
     session_search (ss[j := cs]) a = session_search ss a"
proof (induction ss arbitrary: j)
  case Nil
  then show ?case by simp
next
  case (Cons s ss)
  then show ?case by (cases j) simp_all
qed

lemma locates_put_session:
  assumes "locates g h a i j" and "address cs = address (sessions_list_head (g ! i) ! j)"
  shows "locates (put_session g i j cs) h a i j"
  using assms locates_facts(2,4) [OF assms(1)]
  by (simp add: locates_def nth_put_session_fields sessions_put_session session_search_update)

lemma put_session_twice [simp]:
  "put_session (put_session g i j a) i j b = put_session g i j b"
  by (cases "i < length g") (simp_all add: put_session_def list_update_beyond)

lemma send_packet_located:
  assumes "locates g h to i j"
  shows "send_packet False g h p to =
     (case register_timeout_arg (sessions_list_head (g ! i) ! j) \<lparr>fd = h, packet = p, recipient = to\<rparr> of
        Inl e \<Rightarrow> Inl e
      | Inr cs \<Rightarrow> Inr (put_session g i j cs,
                       [Sendto h p to, Event_timeout \<lparr>fd = h, packet = p, recipient = to\<rparr>]))"
  using locates_facts [OF assms]
  by (simp add: send_packet_def Let_def)

lemma sender_at_located:
  assumes "locates g h a i j"
  shows "sender_at g i j = sender (sessions_list_head (g ! i) ! j)"
  using locates_facts(7) [OF assms] by (simp add: sender_at_def)

lemma locates_put_sender:
  assumes "locates g h a i j"
  shows "locates (put_sender g i j s) h a i j"
  unfolding put_sender_def by (rule locates_put_session [OF assms]) simp

lemma session_put_sender:
  assumes "locates g h a i j"
  shows "sessions_list_head (put_sender g i j s ! i) ! j =
           (sessions_list_head (g ! i) ! j)\<lparr>sender := Some s\<rparr>"
  using locates_facts(2,4) [OF assms]
  by (simp add: put_sender_def sessions_put_session)

lemma put_session_put_sender:
  "put_session (put_sender g i j s) i j cs = put_session g i j cs"
  by (simp add: put_sender_def)



section \<open>Retransmission and giving up\<close>

lemma timeoutargs_eta [simp]:
  "\<lparr>fd = fd ta, packet = packet ta, recipient = recipient ta\<rparr> = (ta :: timeoutargs)"
  by simp






lemma locates_example_open_sender: "locates [example_open_sender n] 3 example_peer 0 0"
  by (simp add: locates_def example_open_sender_def example_peer_def compare_sockaddr_def)

lemma upt_window: "[0..<RUDP_WINDOW] = [0, 1, 2]"
  by (simp add: RUDP_WINDOW_def upt_rec)





section \<open>Sending\<close>

text \<open>What \<^verbatim>\<open>rudp_sendto\<close> does where it works: it returns \<open>-1\<close> and changes nothing for
  a bad length, a null address or an empty socket list, and for a peer that has no
  session on a known socket it appends a sender session that holds the datagram, sends
  one SYN, starts the SYN timer and returns 0.\<close>

lemma rudp_sendto_invalid_arguments:
  assumes "n < 0 \<or> n > int RUDP_MAXPKTSIZE \<or> to_ptr = None \<or> g = []"
  shows "rudp_sendto g rsocket dat n to_ptr r1 r2 = Inr (g, [], - 1)"
  using assms by (auto simp: rudp_sendto_def split: option.splits)

lemma session_search_append_new:
  "session_search ss a = None \<Longrightarrow> compare_sockaddr (address cs) a \<Longrightarrow>
     session_search (ss @ [cs]) a = Some (length ss)"
  by (induction ss) (auto split: if_splits)

lemma socket_search_update_sessions:
  "socket_search (g[i := (g ! i)\<lparr>sessions_list_head := ss\<rparr>]) h = socket_search g h"
  by (rule socket_search_cong) (simp_all add: map_update_same)

lemma rudp_sendto_new_peer:
  assumes "0 \<le> n" and "n \<le> int RUDP_MAXPKTSIZE"
    and "socket_search g rsocket = Inr (Some i)" and "\<not> sessions_freed (g ! i)"
    and "session_search (sessions_list_head (g ! i)) to = None"
  shows "rudp_sendto g rsocket dat n (Some to) r1 r2 =
     Inr (g[i := (g ! i)\<lparr>sessions_list_head := sessions_list_head (g ! i) @
            [\<lparr>sender = Some
                \<lparr>s_status = SYN_SENT, s_seqno = r1,
                 sliding_window = replicate RUDP_WINDOW None,
                 retransmission_attempts = replicate RUDP_WINDOW 0,
                 data_queue = [\<lparr>item = take (nat n) dat, len = n\<rparr>],
                 s_session_finished = False,
                 syn_timeout_arg =
                   Some \<lparr>fd = rsocket, packet = create_rudp_packet RUDP_SYN r1 0 None, recipient = to\<rparr>,
                 fin_timeout_arg = None,
                 data_timeout_arg = replicate RUDP_WINDOW None,
                 syn_retransmit_attempts = 0, fin_retransmit_attempts = 0\<rparr>,
              receiver = None, address = to\<rparr>]\<rparr>],
          [Sendto rsocket (create_rudp_packet RUDP_SYN r1 0 None) to,
           Event_timeout \<lparr>fd = rsocket, packet = create_rudp_packet RUDP_SYN r1 0 None, recipient = to\<rparr>],
          0)"
proof -
  let ?d = "\<lparr>item = take (nat n) dat, len = n\<rparr>"
  let ?g1 = "g[i := create_sender_session (g ! i) r1 to [?d]]"
  let ?p = "create_rudp_packet RUDP_SYN r1 0 None"
  have i: "i < length g" "g \<noteq> []"
    using socket_search_Some [OF assms(3)] by auto
  have s1: "socket_search ?g1 rsocket = Inr (Some i)"
    using assms(3) by (simp add: create_sender_session_def socket_search_update_sessions)
  have cmp: "compare_sockaddr to to"
    by (simp add: compare_sockaddr_def)
  let ?new = "\<lparr>sender = Some
                \<lparr>s_status = SYN_SENT, s_seqno = r1,
                 sliding_window = replicate RUDP_WINDOW None,
                 retransmission_attempts = replicate RUDP_WINDOW 0,
                 data_queue = [?d],
                 s_session_finished = False,
                 syn_timeout_arg = None, fin_timeout_arg = None,
                 data_timeout_arg = replicate RUDP_WINDOW None,
                 syn_retransmit_attempts = 0, fin_retransmit_attempts = 0\<rparr>,
              receiver = None, address = to\<rparr>"
  let ?X = "create_sender_session (g ! i) r1 to [?d]"
  let ?k = "length (sessions_list_head (g ! i))"
  have l1: "sessions_lookup ?X to = Inr (Some ?k)"
    using assms(4,5) cmp
    by (simp add: sessions_lookup_def create_sender_session_def session_search_append_new)
  have nth: "sessions_list_head ?X ! ?k = ?new"
    by (simp add: create_sender_session_def)
  have ty: "type (header ?p) = RUDP_SYN"
    by (simp add: create_rudp_packet_def)
  have sp: "send_packet False ?g1 rsocket ?p to =
     Inr (put_session ?g1 i ?k
            (?new\<lparr>sender := Some
                  ((the (sender ?new))
                     \<lparr>syn_timeout_arg := Some \<lparr>fd = rsocket, packet = ?p, recipient = to\<rparr>\<rparr>)\<rparr>),
          [Sendto rsocket ?p to, Event_timeout \<lparr>fd = rsocket, packet = ?p, recipient = to\<rparr>])"
    using i by (simp add: send_packet_def Let_def s1 l1 nth register_timeout_arg_def ty)
  have none: "sessions_lookup (g ! i) to = Inr None"
    using assms(4,5) by (simp add: sessions_lookup_def)
  have "rudp_sendto g rsocket dat n (Some to) r1 r2 =
      (case send_packet False ?g1 rsocket ?p to of Inl e \<Rightarrow> Inl e | Inr (g', es) \<Rightarrow> Inr (g', es, 0))"
    using assms(1,2) i none by (simp add: rudp_sendto_def assms(3) Let_def)
  then have "rudp_sendto g rsocket dat n (Some to) r1 r2 =
     Inr (put_session ?g1 i ?k
            (?new\<lparr>sender := Some
                  ((the (sender ?new))
                     \<lparr>syn_timeout_arg := Some \<lparr>fd = rsocket, packet = ?p, recipient = to\<rparr>\<rparr>)\<rparr>),
          [Sendto rsocket ?p to, Event_timeout \<lparr>fd = rsocket, packet = ?p, recipient = to\<rparr>], 0)"
    by (simp only: sp sum.case prod.case)
  then show ?thesis
    using i by (simp add: put_session_def create_sender_session_def)
qed


text \<open>
  Claim C9 says that \<^verbatim>\<open>rudp_sendto\<close> returns \<open>-1\<close> when the handle names no known socket,
  and that a valid call for a peer without a sender half creates the sender half, sends
  exactly one SYN and returns 0.  The code does neither at these two inputs.  With a
  socket list that holds only the socket of handle 3, the call with handle 4 finds no
  socket and dereferences the null pointer the search loop leaves.  With a session for
  the peer that has only a receiver half, the call appends a new session instead of
  giving the session a sender half, and \<^verbatim>\<open>send_packet\<close> dereferences the null sender
  pointer of the session it finds for the peer when it stores the timer of the SYN.
\<close>

theorem rudp_sendto_faults_on_unknown_handle_and_receiver_only_peer:
  "socket_search [example_socket 3] 4 = Inr None \<and>
   rudp_sendto [example_socket 3] 4 [104, 101, 108, 108, 111] 5 (Some example_peer) 100 200 =
     Inl Null_Deref \<and>
   locates [example_receiver] 3 example_peer 0 0 \<and>
   sender (sessions_list_head ([example_receiver] ! 0) ! 0) = None \<and>
   rudp_sendto [example_receiver] 3 [104, 101, 108, 108, 111] 5 (Some example_peer) 100 200 =
     Inl Null_Deref"
proof -
  have a: "socket_search [example_socket 3] 4 = Inr None"
    by (simp add: example_socket_def)
  have b: "rudp_sendto [example_socket 3] 4 [104, 101, 108, 108, 111] 5 (Some example_peer) 100 200 =
     Inl Null_Deref"
    by (simp add: rudp_sendto_def RUDP_MAXPKTSIZE_def example_socket_def)
  have c: "sender (sessions_list_head ([example_receiver] ! 0) ! 0) = None"
    by (simp add: example_receiver_def)
  have s: "socket_search [example_receiver] 3 = Inr (Some 0)"
    by (simp add: example_receiver_def)
  have l: "sessions_lookup (create_sender_session example_receiver 100 example_peer dq) example_peer
             = Inr (Some 0)" for dq
    by (simp add: sessions_lookup_def create_sender_session_def example_receiver_def
        compare_sockaddr_def)
  have sp: "send_packet False [create_sender_session example_receiver 100 example_peer dq] 3
          (create_rudp_packet RUDP_SYN 100 0 None) example_peer = Inl Null_Deref" for dq
    using l [of dq]
    by (simp add: send_packet_def Let_def)
       (simp add: create_sender_session_def example_receiver_def register_timeout_arg_def
          create_rudp_packet_def)
  have f: "\<not> socket_freed example_receiver" "rsock example_receiver = 3"
    by (simp_all add: example_receiver_def)
  have d: "rudp_sendto [example_receiver] 3 [104, 101, 108, 108, 111] 5 (Some example_peer) 100 200 =
     Inl Null_Deref"
    using locates_facts(3,6) [OF locates_example_receiver] c
    by (simp add: rudp_sendto_def RUDP_MAXPKTSIZE_def Let_def sp f)
  show ?thesis
    by (intro conjI a b c d locates_example_receiver)
qed

section \<open>The window invariant\<close>

text \<open>Every operation keeps the senders well-formed, so every sender of a reachable
  state is.\<close>

lemma windows_left_packed_update:
  assumes "windows_left_packed g" and "\<forall>cs \<in> set ss. \<forall>s. sender cs = Some s \<longrightarrow> sender_ok s"
  shows "windows_left_packed (g[i := (g ! i)\<lparr>sessions_list_head := ss\<rparr>])"
proof -
  have "sock \<in> set (g[i := (g ! i)\<lparr>sessions_list_head := ss\<rparr>]) \<Longrightarrow>
          sock = (g ! i)\<lparr>sessions_list_head := ss\<rparr> \<or> sock \<in> set g" for sock
    using set_update_subset_insert [of g i] by auto
  then show ?thesis
    using assms unfolding windows_left_packed_def by fastforce
qed

lemma windows_left_packed_sessions:
  assumes "windows_left_packed g" and "i < length g"
  shows "\<forall>cs \<in> set (sessions_list_head (g ! i)). \<forall>s. sender cs = Some s \<longrightarrow> sender_ok s"
  using assms unfolding windows_left_packed_def by (meson nth_mem)

lemma windows_left_packed_put_session:
  assumes "windows_left_packed g" and "\<forall>s. sender cs = Some s \<longrightarrow> sender_ok s"
  shows "windows_left_packed (put_session g i j cs)"
proof (cases "i < length g")
  case True
  have "\<forall>c \<in> set ((sessions_list_head (g ! i))[j := cs]). \<forall>s. sender c = Some s \<longrightarrow> sender_ok s"
    using windows_left_packed_sessions [OF assms(1) True] assms(2)
      set_update_subset_insert [of "sessions_list_head (g ! i)" j cs]
    by auto
  then show ?thesis
    unfolding put_session_def by (rule windows_left_packed_update [OF assms(1)])
next
  case False
  then show ?thesis
    using assms(1) by (simp add: put_session_def list_update_beyond)
qed

lemma windows_left_packed_put_sender:
  assumes "windows_left_packed g" and "sender_ok s"
  shows "windows_left_packed (put_sender g i j s)"
  unfolding put_sender_def
  by (rule windows_left_packed_put_session [OF assms(1)]) (simp add: assms(2))

lemma windows_left_packed_session_at:
  assumes "windows_left_packed g" and "session_at g i j = Some cs" and "sender cs = Some s"
  shows "sender_ok s"
proof -
  from assms(2) have "i < length g" "j < length (sessions_list_head (g ! i))"
    "cs = sessions_list_head (g ! i) ! j"
    by (auto simp: session_at_def split: if_splits)
  then show ?thesis
    using windows_left_packed_sessions [OF assms(1) \<open>i < length g\<close>] assms(3)
    by (metis nth_mem)
qed

lemma windows_left_packed_sender_at:
  assumes "windows_left_packed g" and "sender_at g i j = Some s"
  shows "sender_ok s"
  using assms windows_left_packed_session_at
  by (auto simp: sender_at_def split: option.splits)


lemma length_window3:
  assumes "length w = RUDP_WINDOW"
  obtains a b c where "w = [a, b, c]"
proof -
  from assms have "length w = Suc (Suc (Suc 0))" by (simp add: RUDP_WINDOW_def)
  then obtain a b c where "w = [a, b, c]"
    by (auto simp: length_Suc_conv)
  then show ?thesis by (rule that)
qed

lemma left_packed3:
  "left_packed [a, b, c] \<longleftrightarrow> (a = None \<longrightarrow> b = None) \<and> (b = None \<longrightarrow> c = None)"
proof -
  have "(\<forall>n<Suc (Suc 0). P n) \<longleftrightarrow> P 0 \<and> P (Suc 0)" for P
    by (auto simp: less_Suc_eq)
  then show ?thesis
    by (simp add: left_packed_def)
qed

lemma first_unused_slot3:
  "first_unused_slot [a, b, c] =
     (if a = None then Some 0 else if b = None then Some 1 else if c = None then Some 2 else None)"
  by (simp add: first_unused_slot_def upt_window)

lemma first_free_slot3:
  "first_free_slot [a, b, c] =
     (if a = None then Some 0 else if b = None then Some 1 else if c = None then Some 2 else None)"
  by (simp add: first_free_slot_def upt_window)

lemma sender_ok_fill_unused:
  assumes "sender_ok s" and "first_unused_slot (sliding_window s) = Some k"
  shows "sender_ok (s\<lparr>s_seqno := sq, sliding_window := (sliding_window s)[k := Some p],
                      retransmission_attempts := (retransmission_attempts s)[k := 0],
                      data_queue := q\<rparr>)"
proof -
  from assms(1) have "length (sliding_window s) = RUDP_WINDOW" by (simp add: sender_ok_def)
  then obtain a b c where w: "sliding_window s = [a, b, c]" by (rule length_window3)
  show ?thesis
    using assms by (auto simp: sender_ok_def w left_packed3 first_unused_slot3 split: if_splits)
qed

lemma sender_ok_fill_free:
  assumes "sender_ok s" and "first_free_slot (sliding_window s) = Some k"
  shows "sender_ok (s\<lparr>s_seqno := sq, sliding_window := (sliding_window s)[k := Some p],
                      retransmission_attempts := (retransmission_attempts s)[k := 0]\<rparr>)"
proof -
  from assms(1) have "length (sliding_window s) = RUDP_WINDOW" by (simp add: sender_ok_def)
  then obtain a b c where w: "sliding_window s = [a, b, c]" by (rule length_window3)
  show ?thesis
    using assms by (auto simp: sender_ok_def w left_packed3 first_free_slot3 split: if_splits)
qed

lemma shift_window3:
  assumes "sliding_window s = [a, b, c]" and "retransmission_attempts s = [r0, r1, r2]"
    and "data_timeout_arg s = [t0, t1, t2]"
  shows "shift_window s =
           s\<lparr>sliding_window := [b, c, None], retransmission_attempts := [r1, r2, 0],
             data_timeout_arg := [t1, t2, None]\<rparr>"
proof -
  have u: "[0..<2] = [0, 1]"
    by (simp add: upt_rec)
  show ?thesis
    by (simp add: shift_window_def RUDP_WINDOW_def u shift_step_def assms Let_def)
qed

lemma sender_ok_shift_window:
  assumes "sender_ok s"
  shows "sender_ok (shift_window s)"
proof -
  from assms obtain a b c where w: "sliding_window s = [a, b, c]"
    by (auto simp: sender_ok_def elim: length_window3)
  from assms obtain r0 r1 r2 where r: "retransmission_attempts s = [r0, r1, r2]"
    by (auto simp: sender_ok_def RUDP_WINDOW_def numeral_3_eq_3 length_Suc_conv)
  from assms obtain t0 t1 t2 where t: "data_timeout_arg s = [t0, t1, t2]"
    by (auto simp: sender_ok_def RUDP_WINDOW_def numeral_3_eq_3 length_Suc_conv)
  show ?thesis
    using assms by (auto simp: shift_window3 [OF w r t] sender_ok_def w left_packed3 RUDP_WINDOW_def)
qed


lemma register_timeout_arg_ok:
  assumes "register_timeout_arg cs ta = Inr cs'" and "\<forall>s. sender cs = Some s \<longrightarrow> sender_ok s"
  shows "\<forall>s. sender cs' = Some s \<longrightarrow> sender_ok s"
  using assms
  by (auto simp: register_timeout_arg_def Let_def sender_ok_def split: if_splits option.splits)

lemma windows_left_packed_nth_session:
  assumes "windows_left_packed g" and "i < length g" and "j < length (sessions_list_head (g ! i))"
  shows "\<forall>s. sender (sessions_list_head (g ! i) ! j) = Some s \<longrightarrow> sender_ok s"
  using windows_left_packed_sessions [OF assms(1,2)] assms(3) by (meson nth_mem)

lemma send_packet_cases:
  assumes "send_packet False g h p to = Inr (g', es)"
  obtains "g' = g"
  | i j cs where "socket_search g h = Inr (Some i)"
      "session_search (sessions_list_head (g ! i)) to = Some j"
      "register_timeout_arg (sessions_list_head (g ! i) ! j) \<lparr>fd = h, packet = p, recipient = to\<rparr> = Inr cs"
      "g' = put_session g i j cs"
proof -
  from assms obtain i where i: "socket_search g h = Inr (Some i)"
    by (cases "socket_search g h") (auto simp: send_packet_def Let_def split: option.splits)
  with assms have e: "(case sessions_lookup (g ! i) to of
                Inl e \<Rightarrow> Inl e
              | Inr None \<Rightarrow> Inr (g, [Sendto h p to, Event_timeout \<lparr>fd = h, packet = p, recipient = to\<rparr>])
              | Inr (Some j) \<Rightarrow>
                  (case register_timeout_arg (sessions_list_head (g ! i) ! j) \<lparr>fd = h, packet = p, recipient = to\<rparr> of
                     Inl e \<Rightarrow> Inl e
                   | Inr cs \<Rightarrow>
                       Inr (put_session g i j cs,
                            [Sendto h p to, Event_timeout \<lparr>fd = h, packet = p, recipient = to\<rparr>]))) = Inr (g', es)"
    by (simp add: send_packet_def Let_def)
  show ?thesis
  proof (cases "sessions_lookup (g ! i) to")
    case (Inl e')
    with e show ?thesis by simp
  next
    case (Inr r)
    show ?thesis
    proof (cases r)
      case None
      with e Inr have "g' = g" by simp
      then show ?thesis by (rule that(1))
    next
      case (Some j)
      with Inr have j: "session_search (sessions_list_head (g ! i)) to = Some j"
        by (simp add: sessions_lookup_def split: if_splits)
      from e Inr Some obtain cs where
        "register_timeout_arg (sessions_list_head (g ! i) ! j) \<lparr>fd = h, packet = p, recipient = to\<rparr> = Inr cs"
        "g' = put_session g i j cs"
        by (cases "register_timeout_arg (sessions_list_head (g ! i) ! j) \<lparr>fd = h, packet = p, recipient = to\<rparr>")
           auto
      with i j show ?thesis by (rule that(2))
    qed
  qed
qed

lemma send_packet_windows_left_packed:
  assumes "send_packet is_ack g h p to = Inr (g', es)" and "windows_left_packed g"
  shows "windows_left_packed g'"
proof (cases is_ack)
  case True
  with assms show ?thesis by (simp add: send_packet_def)
next
  case False
  with assms(1) have "send_packet False g h p to = Inr (g', es)" by simp
  then show ?thesis
  proof (cases rule: send_packet_cases)
    case 1
    with assms(2) show ?thesis by simp
  next
    case (2 i j cs)
    have "\<forall>s. sender cs = Some s \<longrightarrow> sender_ok s"
      using 2(3)
    proof (rule register_timeout_arg_ok)
      show "\<forall>s. sender (sessions_list_head (g ! i) ! j) = Some s \<longrightarrow> sender_ok s"
        using socket_search_Some [OF 2(1)] session_search_Some [OF 2(2)]
        by (intro windows_left_packed_nth_session [OF assms(2)]) auto
    qed
    then show ?thesis
      unfolding 2(4) by (rule windows_left_packed_put_session [OF assms(2)])
  qed
qed

lemma refill_window_windows_left_packed:
  "refill_window local g i j fl to = Inr (g', es) \<Longrightarrow> windows_left_packed g \<Longrightarrow>
     windows_left_packed g'"
proof (induction local g i j fl to arbitrary: g' es rule: refill_window.induct)
  case (1 local g i j fl to)
  from "1.prems"(1) obtain s where s: "sender_at g i j = Some s"
    by (subst (asm) refill_window.simps) (auto split: option.splits)
  have ok: "sender_ok s"
    by (rule windows_left_packed_sender_at [OF "1.prems"(2) s])
  show ?case
  proof (cases "data_queue s")
    case Nil
    with "1.prems" s show ?thesis
      by (subst (asm) refill_window.simps) simp
  next
    case (Cons d rest)
    show ?thesis
    proof (cases "sliding_window s ! (RUDP_WINDOW - 1) \<noteq> None")
      case True
      with "1.prems" s Cons show ?thesis
        by (subst (asm) refill_window.simps) simp
    next
      case False
      with "1.prems"(1) s Cons obtain index where
        index: "first_unused_slot (sliding_window s) = Some index"
        by (subst (asm) refill_window.simps) (auto split: option.splits)
      define sq where "sq = (case local of None \<Rightarrow> s_seqno s + 1 | Some syn_sqn \<Rightarrow> syn_sqn + 1)"
      define datap where "datap = create_rudp_packet RUDP_DATA sq (len d) (Some (item d))"
      define s' where "s' = s\<lparr>s_seqno := s_seqno s + 1,
                                  sliding_window := (sliding_window s)[index := Some datap],
                                  retransmission_attempts := (retransmission_attempts s)[index := 0],
                                  data_queue := rest\<rparr>"
      from "1.prems"(1) s Cons False index obtain g1 es1 es2 where
        sp: "send_packet False (put_sender g i j s') fl datap to = Inr (g1, es1)"
        and rec: "refill_window (map_option (\<lambda>_. sq) local) g1 i j fl to = Inr (g', es2)"
        by (subst (asm) refill_window.simps)
           (auto simp: sq_def datap_def s'_def Let_def split: sum.splits)
      have "sender_ok s'"
        unfolding s'_def by (rule sender_ok_fill_unused [OF ok index])
      then have "windows_left_packed (put_sender g i j s')"
        by (rule windows_left_packed_put_sender [OF "1.prems"(2)])
      then have g1: "windows_left_packed g1"
        by (rule send_packet_windows_left_packed [OF sp])
      show ?thesis
        by (rule "1.IH" [OF s Cons False index sq_def datap_def s'_def sp refl rec g1])
    qed
  qed
qed


lemma windows_left_packed_cong:
  assumes "map sessions_list_head g' = map sessions_list_head g"
  shows "windows_left_packed g' \<longleftrightarrow> windows_left_packed g"
proof -
  define P where "P ss \<longleftrightarrow> (\<forall>cs \<in> set ss. \<forall>s. sender cs = Some s \<longrightarrow> sender_ok s)"
    for ss :: "session list"
  have *: "windows_left_packed x = list_all P (map sessions_list_head x)" for x
    by (simp add: windows_left_packed_def list_all_iff P_def)
  show ?thesis
    unfolding * assms ..
qed

lemma send_fins_windows_left_packed:
  "send_fins ks g i fl = Inr (g', es) \<Longrightarrow> windows_left_packed g \<Longrightarrow> windows_left_packed g'"
proof (induction ks arbitrary: g g' es)
  case Nil
  then show ?case by simp
next
  case (Cons k ks)
  from Cons.prems(1) obtain hs s where hs: "session_at g i k = Some hs" and s: "sender hs = Some s"
    by (auto split: option.splits)
  have ok: "sender_ok s"
    by (rule windows_left_packed_session_at [OF Cons.prems(2) hs s])
  show ?case
  proof (cases "\<not> s_session_finished s \<and> data_queue s = [] \<and>
                  sliding_window s ! 0 = None \<and> s_status s = OPEN")
    case False
    with Cons.prems(1) hs s have "send_fins ks g i fl = Inr (g', es)"
      by auto
    then show ?thesis
      by (rule Cons.IH [OF _ Cons.prems(2)])
  next
    case True
    define s1 where "s1 = s\<lparr>s_seqno := s_seqno s + 1\<rparr>"
    from Cons.prems(1) hs s True obtain g1 es1 s2 es2 where
      sp: "send_packet False (put_sender g i k s1) fl
             (create_rudp_packet RUDP_FIN (s_seqno s1) 0 None) (address hs) = Inr (g1, es1)"
      and s2: "sender_at g1 i k = Some s2"
      and rec: "send_fins ks (put_sender g1 i k (s2\<lparr>s_status := FIN_SENT\<rparr>)) i fl = Inr (g', es2)"
      by (simp add: Let_def s1_def split: sum.splits option.splits prod.splits)
    have "sender_ok s1"
      using ok by (simp add: s1_def sender_ok_def)
    then have "windows_left_packed (put_sender g i k s1)"
      by (rule windows_left_packed_put_sender [OF Cons.prems(2)])
    then have g1: "windows_left_packed g1"
      by (rule send_packet_windows_left_packed [OF sp])
    have "sender_ok s2"
      by (rule windows_left_packed_sender_at [OF g1 s2])
    then have "sender_ok (s2\<lparr>s_status := FIN_SENT\<rparr>)"
      by (simp add: sender_ok_def)
    then have "windows_left_packed (put_sender g1 i k (s2\<lparr>s_status := FIN_SENT\<rparr>))"
      by (rule windows_left_packed_put_sender [OF g1])
    then show ?thesis
      by (rule Cons.IH [OF rec])
  qed
qed

lemma close_socket_windows_left_packed:
  assumes "close_socket g i fl a = Inr (g', es)" and "windows_left_packed g"
  shows "windows_left_packed g'"
proof -
  let ?g1 = "g[i := (g ! i)\<lparr>sessions_freed := True\<rparr>]"
  have 1: "map sessions_list_head ?g1 = map sessions_list_head g"
    by (simp add: map_update_same)
  have 2: "map sessions_list_head (?g1[i := (?g1 ! i)\<lparr>socket_freed := True\<rparr>]) =
             map sessions_list_head g"
    by (cases "i < length g") (simp_all add: map_update_same list_update_beyond)
  from assms(1) have "g' = ?g1 \<or> g' = ?g1[i := (?g1 ! i)\<lparr>socket_freed := True\<rparr>]"
    by (auto simp: close_socket_def Let_def split: sum.splits option.splits if_splits)
  then show ?thesis
    using windows_left_packed_cong [OF 1] windows_left_packed_cong [OF 2] assms(2) by auto
qed

lemma and_then_cases:
  assumes "and_then r f = Inr (g', es)"
  obtains g1 es1 es2 where "r = Inr (g1, es1)" "f g1 = Inr (g', es2)" "es = es1 @ es2"
  using assms by (auto simp: and_then_def split: sum.splits prod.splits)

lemma and_then_windows_left_packed:
  assumes "and_then r f = Inr (g', es)"
    and "\<And>g1 es1. r = Inr (g1, es1) \<Longrightarrow> windows_left_packed g1"
    and "\<And>g1 g2 es2. windows_left_packed g1 \<Longrightarrow> f g1 = Inr (g2, es2) \<Longrightarrow> windows_left_packed g2"
  shows "windows_left_packed g'"
  using assms(1)
proof (cases rule: and_then_cases)
  case (1 g1 es1 es2)
  from assms(2) [OF 1(1)] 1(2) show ?thesis by (rule assms(3))
qed

lemma receiver_update_ok:
  assumes "windows_left_packed g" and "session_at g i j = Some cs"
  shows "windows_left_packed (put_session g i j (cs\<lparr>receiver := r\<rparr>))"
proof (rule windows_left_packed_put_session [OF assms(1)])
  show "\<forall>s. sender (cs\<lparr>receiver := r\<rparr>) = Some s \<longrightarrow> sender_ok s"
    using windows_left_packed_session_at [OF assms] by simp
qed

lemma accept_syn_windows_left_packed:
  assumes "accept_syn g i fl h a = Inr (g', es)" and "windows_left_packed g" and "i < length g"
  shows "windows_left_packed g'"
proof -
  from assms(1) have g': "g' = g[i := create_receiver_session (g ! i) (seqno h + 1) a]"
    by (simp add: accept_syn_def Let_def send_packet_def)
  show ?thesis
    unfolding g' create_receiver_session_def
    by (rule windows_left_packed_update [OF assms(2)])
       (use windows_left_packed_sessions [OF assms(2,3)] in auto)
qed

lemma on_syn_windows_left_packed:
  assumes "on_syn g i j fl h a = Inr (g', es)" and "windows_left_packed g"
  shows "windows_left_packed g'"
proof -
  from assms(1) obtain cs where cs: "session_at g i j = Some cs"
    by (auto simp: on_syn_def split: option.splits)
  with assms(1) have "g' = g \<or> (\<exists>r. g' = put_session g i j (cs\<lparr>receiver := r\<rparr>))"
    by (auto simp: on_syn_def Let_def send_packet_def split: if_splits)
  then show ?thesis
    using assms(2) receiver_update_ok [OF assms(2) cs] by auto
qed

lemma on_data_windows_left_packed:
  assumes "on_data g i j fl p a = Inr (g', es)" and "windows_left_packed g"
  shows "windows_left_packed g'"
proof -
  from assms(1) obtain cs where cs: "session_at g i j = Some cs"
    by (auto simp: on_data_def split: option.splits)
  with assms(1) have "\<exists>r. g' = put_session g i j (cs\<lparr>receiver := r\<rparr>)"
    by (auto simp: on_data_def Let_def send_packet_def split: if_splits option.splits)
  then show ?thesis
    using receiver_update_ok [OF assms(2) cs] by auto
qed

lemma on_fin_windows_left_packed:
  assumes "on_fin g i j fl h a = Inr (g', es)" and "windows_left_packed g"
  shows "windows_left_packed g'"
proof -
  from assms(1) obtain cs r where cs: "session_at g i j = Some cs" and r: "receiver cs = Some r"
    by (auto simp: on_fin_def split: option.splits)
  let ?g2 = "put_session g i j (cs\<lparr>receiver := Some (r\<lparr>r_session_finished := True\<rparr>)\<rparr>)"
  have g2: "windows_left_packed ?g2"
    by (rule receiver_update_ok [OF assms(2) cs])
  from assms(1) cs r have "g' = g \<or> g' = ?g2 \<or> (\<exists>es'. close_socket ?g2 i fl a = Inr (g', es'))"
    by (auto simp: on_fin_def Let_def send_packet_def split: if_splits sum.splits)
  then show ?thesis
    using assms(2) g2 close_socket_windows_left_packed [OF _ g2] by auto
qed


lemma on_ack_windows_left_packed:
  assumes "on_ack g i j fl h a = Inr (g', es)" and "windows_left_packed g"
  shows "windows_left_packed g'"
proof -
  from assms(1) obtain s where s: "sender_at g i j = Some s"
    by (auto simp: on_ack_def split: option.splits)
  have ok: "sender_ok s"
    by (rule windows_left_packed_sender_at [OF assms(2) s])
  consider (syn) "s_status s = SYN_SENT" | (opn) "s_status s = OPEN" | (fin) "s_status s = FIN_SENT"
    | (other) "s_status s = OPENING"
    by (cases "s_status s") auto
  then show ?thesis
  proof cases
    case syn
    show ?thesis
    proof (cases "seqno h - 1 = s_seqno s")
      case False
      with assms s syn show ?thesis by (simp add: on_ack_def)
    next
      case True
      with assms(1) s syn obtain t where
        e: "and_then (Inr (put_sender g i j (s\<lparr>s_status := OPEN\<rparr>), [Event_timeout_delete t]))
              (\<lambda>g1. refill_window (Some (s_seqno s)) g1 i j fl a) = Inr (g', es)"
        by (auto simp: on_ack_def split: option.splits simp del: and_then_Inr)
      have "sender_ok (s\<lparr>s_status := OPEN\<rparr>)"
        using ok by (simp add: sender_ok_def)
      then have "windows_left_packed (put_sender g i j (s\<lparr>s_status := OPEN\<rparr>))"
        by (rule windows_left_packed_put_sender [OF assms(2)])
      with e show ?thesis
        by (elim and_then_cases) (auto dest: refill_window_windows_left_packed)
    qed
  next
    case opn
    show ?thesis
    proof (cases "sliding_window s ! 0")
      case None
      with assms s opn show ?thesis by (simp add: on_ack_def)
    next
      case (Some w0)
      show ?thesis
      proof (cases "seqno (header w0) = seqno h - 1")
        case False
        with assms s opn Some show ?thesis by (simp add: on_ack_def)
      next
        case True
        with assms(1) s opn Some obtain args where
          e: "and_then
                (and_then (Inr (put_sender g i j (shift_window s), [Event_timeout_delete args]))
                   (\<lambda>g1. refill_window None g1 i j fl a))
                (\<lambda>g2. if close_requested (g2 ! i)
                       then send_fins [0..<length (sessions_list_head (g2 ! i))] g2 i fl
                       else Inr (g2, [])) = Inr (g', es)"
          by (auto simp: on_ack_def split: option.splits simp del: and_then_Inr)
        have "windows_left_packed (put_sender g i j (shift_window s))"
          by (rule windows_left_packed_put_sender [OF assms(2) sender_ok_shift_window [OF ok]])
        with e show ?thesis
          by (elim and_then_cases)
             (auto dest: refill_window_windows_left_packed send_fins_windows_left_packed
                split: if_splits)
      qed
    qed
  next
    case fin
    show ?thesis
    proof (cases "s_seqno s + 1 = seqno h")
      case False
      with assms s fin show ?thesis by (simp add: on_ack_def)
    next
      case True
      with assms(1) s fin obtain t where
        e: "and_then
              (Inr (put_sender g i j (s\<lparr>s_session_finished := True\<rparr>), [Event_timeout_delete t]))
              (\<lambda>g1. if close_requested (g1 ! i) then close_socket g1 i fl a else Inr (g1, []))
            = Inr (g', es)"
        by (auto simp: on_ack_def split: option.splits simp del: and_then_Inr)
      have "sender_ok (s\<lparr>s_session_finished := True\<rparr>)"
        using ok by (simp add: sender_ok_def)
      then have "windows_left_packed (put_sender g i j (s\<lparr>s_session_finished := True\<rparr>))"
        by (rule windows_left_packed_put_sender [OF assms(2)])
      with e show ?thesis
        by (elim and_then_cases) (auto dest: close_socket_windows_left_packed split: if_splits)
    qed
  next
    case other
    with assms s show ?thesis by (simp add: on_ack_def)
  qed
qed

lemma receive_callback_windows_left_packed:
  assumes "receive_callback g fl p a = Inr (g', es, rv)" and "windows_left_packed g"
  shows "windows_left_packed g'"
proof (cases "g = []")
  case True
  with assms show ?thesis by (simp add: receive_callback_def)
next
  case False
  with assms(1) obtain i where i: "socket_search g fl = Inr (Some i)"
    by (cases "socket_search g fl") (auto simp: receive_callback_def Let_def split: option.splits)
  have il: "i < length g" using socket_search_Some [OF i] by simp
  show ?thesis
  proof (cases "sessions_list_head (g ! i) = [] \<or> sessions_lookup (g ! i) a = Inr None")
    case True
    with assms(1) False i have "g' = g \<or> (\<exists>es'. accept_syn g i fl (header p) a = Inr (g', es'))"
      by (auto simp: receive_callback_def Let_def split: if_splits sum.splits)
    then show ?thesis
      using assms(2) accept_syn_windows_left_packed [OF _ assms(2) il] by auto
  next
    case no: False
    with assms(1) False i obtain j where j: "sessions_lookup (g ! i) a = Inr (Some j)"
      by (cases "sessions_lookup (g ! i) a")
         (auto simp: receive_callback_def Let_def split: option.splits)
    from assms(1) False i no j obtain es' where
      e: "and_then
            (if type (header p) = RUDP_SYN then on_syn g i j fl (header p) a else Inr (g, []))
            (\<lambda>g1. if type (header p) = RUDP_ACK then on_ack g1 i j fl (header p) a
                   else if type (header p) = RUDP_DATA then on_data g1 i j fl p a
                   else if type (header p) = RUDP_FIN then on_fin g1 i j fl (header p) a
                   else Inr (g1, [])) = Inr (g', es')"
      by (auto simp: receive_callback_def Let_def split: sum.splits simp del: and_then_Inr)
    from e show ?thesis
    proof (rule and_then_windows_left_packed)
      fix g1 es1
      assume "(if type (header p) = RUDP_SYN then on_syn g i j fl (header p) a else Inr (g, []))
                = Inr (g1, es1)"
      then show "windows_left_packed g1"
        using assms(2) on_syn_windows_left_packed [OF _ assms(2)] by (auto split: if_splits)
    next
      fix g1 g2 es2
      assume "windows_left_packed g1"
        and "(if type (header p) = RUDP_ACK then on_ack g1 i j fl (header p) a
              else if type (header p) = RUDP_DATA then on_data g1 i j fl p a
              else if type (header p) = RUDP_FIN then on_fin g1 i j fl (header p) a
              else Inr (g1, [])) = Inr (g2, es2)"
      then show "windows_left_packed g2"
        by (auto split: if_splits
            dest: on_ack_windows_left_packed on_data_windows_left_packed on_fin_windows_left_packed)
    qed
  qed
qed


lemma create_sender_session_windows_left_packed:
  assumes "windows_left_packed g"
  shows "windows_left_packed (g[i := create_sender_session (g ! i) sq to dq])"
proof (cases "i < length g")
  case True
  have "left_packed (replicate RUDP_WINDOW None)"
    by (simp add: left_packed_def)
  then show ?thesis
    unfolding create_sender_session_def
    by (intro windows_left_packed_update [OF assms])
       (use windows_left_packed_sessions [OF assms True] in \<open>auto simp: sender_ok_def\<close>)
next
  case False
  with assms show ?thesis by (simp add: list_update_beyond)
qed

lemma send_or_queue_windows_left_packed:
  assumes "send_or_queue g i j s h dat n to = Inr (g', es)" and "windows_left_packed g"
    and "sender_ok s"
  shows "windows_left_packed g'"
proof (cases "if s_status s = OPEN \<and> \<not> data_queue s \<noteq> [] then first_free_slot (sliding_window s) else None")
  case None
  with assms(1) have "g' = put_sender g i j (s\<lparr>data_queue := data_queue s @ [\<lparr>item = take (nat n) dat, len = n\<rparr>]\<rparr>)"
    by (simp add: send_or_queue_def Let_def)
  moreover have "sender_ok (s\<lparr>data_queue := data_queue s @ [\<lparr>item = take (nat n) dat, len = n\<rparr>]\<rparr>)"
    using assms(3) by (simp add: sender_ok_def)
  ultimately show ?thesis
    using windows_left_packed_put_sender [OF assms(2)] by simp
next
  case (Some k)
  then have k: "first_free_slot (sliding_window s) = Some k"
    by (simp split: if_splits)
  define datap where "datap = create_rudp_packet RUDP_DATA (s_seqno s + 1) n (Some dat)"
  define s' where "s' = s\<lparr>s_seqno := s_seqno s + 1,
                         sliding_window := (sliding_window s)[k := Some datap],
                         retransmission_attempts := (retransmission_attempts s)[k := 0]\<rparr>"
  from assms(1) Some have sp: "send_packet False (put_sender g i j s') h datap to = Inr (g', es)"
    by (simp add: send_or_queue_def Let_def s'_def datap_def)
  have "sender_ok s'"
    unfolding s'_def by (rule sender_ok_fill_free [OF assms(3) k])
  then have "windows_left_packed (put_sender g i j s')"
    by (rule windows_left_packed_put_sender [OF assms(2)])
  then show ?thesis
    by (rule send_packet_windows_left_packed [OF sp])
qed

lemma rudp_sendto_windows_left_packed:
  assumes "rudp_sendto g h dat n to_ptr r1 r2 = Inr (g', es, rv)" and "windows_left_packed g"
  shows "windows_left_packed g'"
proof (cases "n < 0 \<or> n > int RUDP_MAXPKTSIZE \<or> to_ptr = None \<or> g = []")
  case True
  with assms show ?thesis
    by (simp add: rudp_sendto_invalid_arguments)
next
  case False
  then obtain to where to: "to_ptr = Some to" by auto
  from assms(1) False to obtain i where i: "socket_search g h = Inr (Some i)"
    by (cases "socket_search g h") (auto simp: rudp_sendto_def split: option.splits)
  have il: "i < length g" using socket_search_Some [OF i] by simp
  let ?d = "\<lparr>item = take (nat n) dat, len = n\<rparr>"
  let ?new = "send_packet False (g[i := create_sender_session (g ! i) r1 to [?d]]) h
                (create_rudp_packet RUDP_SYN r1 0 None) to"
  have new: "windows_left_packed g1" if "?new = Inr (g1, es1)" for g1 es1
    using that create_sender_session_windows_left_packed [OF assms(2)]
    by (rule send_packet_windows_left_packed)
  from assms(1) False to i consider
      (a) es' where "?new = Inr (g', es')"
    | (b) g1 es1 where "?new = Inr (g1, es1)" "g' = g1[i := create_sender_session (g1 ! i) r2 to [?d]]"
    | (c) j s where "session_search (sessions_list_head (g ! i)) to = Some j"
        "sender (sessions_list_head (g ! i) ! j) = Some s"
        "send_or_queue g i j s h dat n to = Inr (g', es)"
    by (auto simp: rudp_sendto_def Let_def sessions_lookup_def
        split: if_splits sum.splits option.splits elim!: and_then_cases)
  then show ?thesis
  proof cases
    case a
    then show ?thesis by (rule new)
  next
    case b
    show ?thesis
      unfolding b(2) by (rule create_sender_session_windows_left_packed [OF new [OF b(1)]])
  next
    case c
    have "sender_ok s"
      using windows_left_packed_nth_session [OF assms(2) il] session_search_Some [OF c(1)] c(2)
      by auto
    with c(3) assms(2) show ?thesis
      by (rule send_or_queue_windows_left_packed)
  qed
qed

lemma retransmit_windows_left_packed:
  assumes "retransmit g ta = Inr (g', es, rv)" and "windows_left_packed g"
  shows "windows_left_packed g'"
  using assms
  by (auto simp: retransmit_def split: sum.splits dest: send_packet_windows_left_packed)

lemma timeout_callback_windows_left_packed:
  assumes "timeout_callback g ta = Inr (g', es, rv)" and "windows_left_packed g"
  shows "windows_left_packed g'"
proof -
  from assms(1) obtain i where i: "socket_search g (fd ta) = Inr (Some i)"
    by (cases "socket_search g (fd ta)") (auto simp: timeout_callback_def split: option.splits)
  show ?thesis
  proof (cases "sessions_lookup (g ! i) (recipient ta)")
    case (Inl e)
    with assms(1) i show ?thesis by (simp add: timeout_callback_def)
  next
    case (Inr r)
    show ?thesis
    proof (cases r)
      case None
      with assms i Inr show ?thesis by (simp add: timeout_callback_def)
    next
      case (Some j)
      with assms(1) i Inr obtain s where s: "sender_at g i j = Some s"
        by (auto simp: timeout_callback_def split: option.splits)
      have ok: "sender_ok s"
        by (rule windows_left_packed_sender_at [OF assms(2) s])
      have upd: "windows_left_packed (put_sender g i j s')"
        if "sliding_window s' = sliding_window s"
          "length (retransmission_attempts s') = length (retransmission_attempts s)"
          "data_timeout_arg s' = data_timeout_arg s" for s'
        using ok that by (intro windows_left_packed_put_sender [OF assms(2)]) (simp add: sender_ok_def)
      from assms(1) i Inr Some s consider "g' = g"
        | s' where "retransmit (put_sender g i j s') ta = Inr (g', es, rv)"
            "sliding_window s' = sliding_window s"
            "length (retransmission_attempts s') = length (retransmission_attempts s)"
            "data_timeout_arg s' = data_timeout_arg s"
        by (auto simp: timeout_callback_def give_up_def split: if_splits option.splits)
      then show ?thesis
      proof cases
        case 1
        with assms(2) show ?thesis by simp
      next
        case 2
        from 2(1) upd [OF 2(2,3,4)] show ?thesis
          by (rule retransmit_windows_left_packed)
      qed
    qed
  qed
qed

lemma field_update_windows_left_packed:
  assumes "windows_left_packed g" and "sessions_list_head x = sessions_list_head (g ! k)"
  shows "windows_left_packed (g[k := x])"
proof -
  have m: "map sessions_list_head (g[k := x]) = map sessions_list_head g"
    using assms(2) by (rule map_update_same)
  show ?thesis
    using assms(1) windows_left_packed_cong [OF m] by simp
qed

lemma reachable_windows_left_packed:
  "reachable g \<Longrightarrow> windows_left_packed g"
proof (induction rule: reachable.induct)
  case start
  show ?case by (simp add: windows_left_packed_def)
next
  case (socket g sockfd g' h)
  then show ?case
    by (auto simp: rudp_socket_def windows_left_packed_def split: if_splits)
next
  case (close g h g' rv)
  then show ?case
    by (auto simp: rudp_close_def split: sum.splits if_splits
        intro: field_update_windows_left_packed)
next
  case (recvfrom_handler g h f g' rv)
  then show ?case
    by (auto simp: rudp_recvfrom_handler_def split: sum.splits if_splits option.splits
        intro: field_update_windows_left_packed)
next
  case (event_handler g h f g' rv)
  then show ?case
    by (auto simp: rudp_event_handler_def split: sum.splits if_splits option.splits
        intro: field_update_windows_left_packed)
next
  case (sendto g h dat n to_ptr r1 r2 g' es rv)
  then show ?case by (auto dest: rudp_sendto_windows_left_packed)
next
  case (receive g fl pkt a g' es rv)
  then show ?case by (auto dest: receive_callback_windows_left_packed)
next
  case (timeout g ta g' es rv)
  then show ?case by (auto dest: timeout_callback_windows_left_packed)
qed

section \<open>The window after a refill\<close>

lemma packed_cases:
  assumes "length ps < RUDP_WINDOW"
  obtains "ps = []" | a where "ps = [a]" | a b where "ps = [a, b]"
proof -
  from assms have "length ps = 0 \<or> length ps = Suc 0 \<or> length ps = Suc (Suc 0)"
    unfolding RUDP_WINDOW_def by arith
  then show ?thesis
    by (auto simp: length_Suc_conv intro: that)
qed

lemma first_unused_slot_packed:
  assumes "length ps < RUDP_WINDOW"
  shows "first_unused_slot (map Some ps @ replicate (RUDP_WINDOW - length ps) None) = Some (length ps)"
  using assms
  by (cases rule: packed_cases)
     (simp_all add: RUDP_WINDOW_def numeral_3_eq_3 first_unused_slot3)

lemma last_slot_packed:
  assumes "length ps \<le> RUDP_WINDOW"
  shows "(map Some ps @ replicate (RUDP_WINDOW - length ps) None) ! (RUDP_WINDOW - 1) \<noteq> None
           \<longleftrightarrow> length ps = RUDP_WINDOW"
proof (cases "length ps < RUDP_WINDOW")
  case True
  then show ?thesis
    by (simp add: nth_append)
next
  case False
  with assms have "length ps = RUDP_WINDOW" by simp
  then show ?thesis
    by (simp add: nth_append RUDP_WINDOW_def)
qed

lemma update_packed:
  assumes "length ps < RUDP_WINDOW"
  shows "(map Some ps @ replicate (RUDP_WINDOW - length ps) None)[length ps := Some p] =
           map Some (ps @ [p]) @ replicate (RUDP_WINDOW - length (ps @ [p])) None"
  using assms
  by (cases rule: packed_cases) (simp_all add: RUDP_WINDOW_def numeral_3_eq_3)

lemma window_index_packed:
  assumes "length ps < RUDP_WINDOW"
  shows "window_index (map Some (ps @ [p]) @ replicate (RUDP_WINDOW - length (ps @ [p])) None)
           (seqno (header p)) = Some (length ps)"
  using assms
  by (cases rule: packed_cases)
     (simp_all add: RUDP_WINDOW_def numeral_3_eq_3 window_index_def upt_rec)


lemma put_sender_same:
  assumes "locates g h a i j" and "sender (sessions_list_head (g ! i) ! j) = Some s"
  shows "put_sender g i j s = g"
proof -
  have "(sessions_list_head (g ! i) ! j)\<lparr>sender := Some s\<rparr> = sessions_list_head (g ! i) ! j"
    using assms(2) by simp
  then show ?thesis
    using locates_facts(7) [OF assms(1)] by (simp add: put_sender_def put_session_same)
qed

lemma put_sender_twice:
  assumes "locates g h a i j"
  shows "put_sender (put_sender g i j s) i j s' = put_sender g i j s'"
  using locates_facts(2,4) [OF assms]
  by (simp add: put_sender_def sessions_put_session)

lemma filled_none:
  assumes "sliding_window s = map Some ps @ replicate (RUDP_WINDOW - length ps) None"
  shows "filled fl to ps 0 s = s"
  by (simp add: filled_def assms [symmetric])

lemma take_Suc_update:
  "m < length xs \<Longrightarrow> take (Suc m) (xs[m := x]) = take m xs @ [x]"
  by (simp add: take_Suc_conv_app_nth)

lemma filled_step:
  assumes "data_queue s = d # rest"
    and "length ps < length (retransmission_attempts s)"
    and "length ps < length (data_timeout_arg s)"
    and "length ps < RUDP_WINDOW"
    and "datap = create_rudp_packet RUDP_DATA (s_seqno s + 1) (len d) (Some (item d))"
  shows "filled fl to (ps @ [datap]) k
           (s\<lparr>s_seqno := s_seqno s + 1, sliding_window := w,
              retransmission_attempts := (retransmission_attempts s)[length ps := 0],
              data_queue := rest,
              data_timeout_arg := (data_timeout_arg s)[length ps := Some (timer_for fl to datap)]\<rparr>) =
         filled fl to ps (Suc k) s"
  using assms
  by (simp add: filled_def Let_def take_Suc_update add.assoc)


lemma refill_window_packed:
  assumes "locates g fl to i j"
    and "sender (sessions_list_head (g ! i) ! j) = Some s"
    and "sliding_window s = map Some ps @ replicate (RUDP_WINDOW - length ps) None"
    and "length ps \<le> RUDP_WINDOW"
    and "length (retransmission_attempts s) = RUDP_WINDOW"
    and "length (data_timeout_arg s) = RUDP_WINDOW"
    and "k = min (RUDP_WINDOW - length ps) (length (data_queue s))"
  shows "refill_window None g i j fl to =
           Inr (put_sender g i j (filled fl to ps k s),
                transmissions fl to (data_packets (s_seqno s) (take k (data_queue s))))"
  using assms
proof (induction "data_queue s" arbitrary: g s ps k)
  case Nil
  have sa: "sender_at g i j = Some s"
    using sender_at_located [OF Nil.prems(1)] Nil.prems(2) by simp
  have k: "k = 0" using Nil.prems(7) Nil.hyps by simp
  have "refill_window None g i j fl to = Inr (g, [])"
    using sa Nil.hyps by (subst refill_window.simps) (simp add: Nil.hyps [symmetric])
  then show ?case
    using Nil.hyps
    by (simp add: k filled_none [OF Nil.prems(3)] put_sender_same [OF Nil.prems(1,2)]
        transmissions_def)
next
  case (Cons d rest)
  have sa: "sender_at g i j = Some s"
    using sender_at_located [OF Cons.prems(1)] Cons.prems(2) by simp
  have q: "data_queue s = d # rest" using Cons.hyps(2) by simp
  show ?case
  proof (cases "length ps = RUDP_WINDOW")
    case True
    then have k: "k = 0" using Cons.prems(7) by simp
    have full: "sliding_window s ! (RUDP_WINDOW - 1) \<noteq> None"
      using last_slot_packed [OF Cons.prems(4)] True by (simp add: Cons.prems(3))
    have "refill_window None g i j fl to = Inr (g, [])"
      using sa q full by (subst refill_window.simps) simp
    then show ?thesis
      by (simp add: k filled_none [OF Cons.prems(3)] put_sender_same [OF Cons.prems(1,2)]
          transmissions_def)
  next
    case False
    with Cons.prems(4) have m: "length ps < RUDP_WINDOW" by simp
    define datap where "datap = create_rudp_packet RUDP_DATA (s_seqno s + 1) (len d) (Some (item d))"
    define w where "w = map Some (ps @ [datap]) @ replicate (RUDP_WINDOW - length (ps @ [datap])) None"
    define s1 where "s1 = s\<lparr>s_seqno := s_seqno s + 1,
                             sliding_window := (sliding_window s)[length ps := Some datap],
                             retransmission_attempts := (retransmission_attempts s)[length ps := 0],
                             data_queue := rest\<rparr>"
    define s2 where "s2 = s\<lparr>s_seqno := s_seqno s + 1, sliding_window := w,
                             retransmission_attempts := (retransmission_attempts s)[length ps := 0],
                             data_queue := rest,
                             data_timeout_arg :=
                               (data_timeout_arg s)[length ps := Some (timer_for fl to datap)]\<rparr>"
    define k' where "k' = min (RUDP_WINDOW - length (ps @ [datap])) (length rest)"
    have free: "\<not> sliding_window s ! (RUDP_WINDOW - 1) \<noteq> None"
      using last_slot_packed [OF Cons.prems(4)] False by (simp add: Cons.prems(3))
    have index: "first_unused_slot (sliding_window s) = Some (length ps)"
      using first_unused_slot_packed [OF m] by (simp add: Cons.prems(3))
    have w1: "sliding_window s1 = w"
      by (simp add: s1_def w_def Cons.prems(3) update_packed [OF m])
    have ty: "type (header datap) = RUDP_DATA" "seqno (header datap) = s_seqno s + 1"
      by (simp_all add: datap_def create_rudp_packet_def)
    have wi: "window_index w (seqno (header datap)) = Some (length ps)"
      unfolding w_def by (rule window_index_packed [OF m])
    have reg: "register_timeout_arg ((sessions_list_head (g ! i) ! j)\<lparr>sender := Some s1\<rparr>)
                 \<lparr>fd = fl, packet = datap, recipient = to\<rparr> =
               Inr ((sessions_list_head (g ! i) ! j)\<lparr>sender := Some s2\<rparr>)"
      using wi
      by (simp add: register_timeout_arg_def ty w1)
         (simp add: s1_def s2_def timer_for_def w1 [unfolded s1_def, simplified])
    have sp: "send_packet False (put_sender g i j s1) fl datap to =
                Inr (put_sender g i j s2,
                     [Sendto fl datap to, Event_timeout (timer_for fl to datap)])"
      by (simp add: send_packet_located [OF locates_put_sender [OF Cons.prems(1)]]
          session_put_sender [OF Cons.prems(1)] reg put_session_put_sender)
         (simp add: put_sender_def timer_for_def)
    have l2: "locates (put_sender g i j s2) fl to i j"
      by (rule locates_put_sender [OF Cons.prems(1)])
    have se2: "sender (sessions_list_head (put_sender g i j s2 ! i) ! j) = Some s2"
      by (simp add: session_put_sender [OF Cons.prems(1)])
    have ih: "refill_window None (put_sender g i j s2) i j fl to =
                Inr (put_sender (put_sender g i j s2) i j (filled fl to (ps @ [datap]) k' s2),
                     transmissions fl to (data_packets (s_seqno s2) (take k' (data_queue s2))))"
    proof (rule Cons.hyps(1) [OF _ l2 se2])
      show "rest = data_queue s2" by (simp add: s2_def)
      show "sliding_window s2 =
              map Some (ps @ [datap]) @ replicate (RUDP_WINDOW - length (ps @ [datap])) None"
        by (simp add: s2_def w_def)
      show "length (ps @ [datap]) \<le> RUDP_WINDOW" using m by simp
      show "length (retransmission_attempts s2) = RUDP_WINDOW"
        by (simp add: s2_def Cons.prems(5))
      show "length (data_timeout_arg s2) = RUDP_WINDOW"
        by (simp add: s2_def Cons.prems(6))
      show "k' = min (RUDP_WINDOW - length (ps @ [datap])) (length (data_queue s2))"
        by (simp add: k'_def s2_def)
    qed
    have k: "k = Suc k'"
      using m Cons.prems(7) q by (simp add: k'_def)
    have f: "filled fl to (ps @ [datap]) k' s2 = filled fl to ps (Suc k') s"
      unfolding s2_def
      by (rule filled_step [OF q _ _ m datap_def]) (simp_all add: Cons.prems(5,6) m)
    have s2f: "s_seqno s2 = s_seqno s + 1" "data_queue s2 = rest"
      by (simp_all add: s2_def)
    have un: "refill_window None g i j fl to =
            (case refill_window None (put_sender g i j s2) i j fl to of
               Inl e \<Rightarrow> Inl e
             | Inr (g'', es') \<Rightarrow>
                 Inr (g'', [Sendto fl datap to, Event_timeout (timer_for fl to datap)] @ es'))"
      using sa q free index
      by (subst refill_window.simps)
         (simp add: Let_def sp [unfolded s1_def datap_def] datap_def split: sum.splits)
    show ?thesis
      by (simp only: un ih sum.case prod.case put_sender_twice [OF Cons.prems(1)] f)
         (simp add: k q transmissions_def s2f datap_def)
  qed
qed


lemma receive_callback_ack:
  assumes "locates g fl a i j" and "type (header pkt) = RUDP_ACK"
  shows "receive_callback g fl pkt a =
     (case on_ack g i j fl (header pkt) a of Inl e \<Rightarrow> Inl e | Inr (g', es) \<Rightarrow> Inr (g', es, 0))"
  using assms(2) by (simp add: receive_callback_found [OF assms(1)] split: sum.splits)

lemma shift_window_packed:
  assumes "sliding_window s = Some w0 # map Some ps @ replicate (RUDP_WINDOW - Suc (length ps)) None"
    and "length ps < RUDP_WINDOW"
    and "retransmission_attempts s = r0 # rs" and "length rs = RUDP_WINDOW - 1"
    and "data_timeout_arg s = t0 # ts" and "length ts = RUDP_WINDOW - 1"
  shows "shift_window s =
           s\<lparr>sliding_window := map Some ps @ replicate (RUDP_WINDOW - length ps) None,
             retransmission_attempts := rs @ [0],
             data_timeout_arg := ts @ [None]\<rparr>"
proof -
  from assms(4) obtain r1 r2 where rs: "rs = [r1, r2]"
    by (auto simp: RUDP_WINDOW_def numeral_2_eq_2 length_Suc_conv)
  from assms(6) obtain t1 t2 where ts: "ts = [t1, t2]"
    by (auto simp: RUDP_WINDOW_def numeral_2_eq_2 length_Suc_conv)
  have "length (sliding_window s) = RUDP_WINDOW"
    using assms(2) by (simp add: assms(1))
  then obtain x b c where w: "sliding_window s = [x, b, c]"
    by (rule length_window3)
  have bc: "[b, c, None] = map Some ps @ replicate (RUDP_WINDOW - length ps) None"
    using w assms(2) unfolding assms(1)
    by (cases rule: packed_cases [OF assms(2)]) (simp_all add: RUDP_WINDOW_def numeral_3_eq_3)
  show ?thesis
    using shift_window3 [OF w assms(3) [unfolded rs] assms(5) [unfolded ts]]
    by (simp add: bc rs ts)
qed


lemma receive_callback_ack_other:
  assumes "locates g fdes peer i j"
    and "sender (sessions_list_head (g ! i) ! j) = Some s"
    and "s_status s = OPEN"
    and "type (header pkt) = RUDP_ACK"
    and "\<forall>w0. sliding_window s ! 0 = Some w0 \<longrightarrow> seqno (header pkt) \<noteq> seqno (header w0) + 1"
  shows "receive_callback g fdes pkt peer = Inr (g, [], 0)"
proof -
  have sa: "sender_at g i j = Some s"
    using sender_at_located [OF assms(1)] assms(2) by simp
  show ?thesis
  proof (cases "sliding_window s ! 0")
    case None
    then show ?thesis
      using sa assms(3) by (simp add: receive_callback_ack [OF assms(1,4)] on_ack_def)
  next
    case (Some w0)
    with assms(5) have "seqno (header pkt) \<noteq> seqno (header w0) + 1"
      by simp
    then have "seqno (header w0) \<noteq> seqno (header pkt) - 1"
      by auto
    then show ?thesis
      using sa Some assms(3) by (simp add: receive_callback_ack [OF assms(1,4)] on_ack_def)
  qed
qed

lemma receive_callback_ack_head:
  assumes "locates g fdes peer i j"
    and "sender (sessions_list_head (g ! i) ! j) = Some s"
    and "s_status s = OPEN"
    and "sliding_window s = Some w0 # map Some ps @ replicate (RUDP_WINDOW - Suc (length ps)) None"
    and "length ps < RUDP_WINDOW"
    and "retransmission_attempts s = r0 # rs" and "length rs = RUDP_WINDOW - 1"
    and "data_timeout_arg s = Some t0 # ts" and "length ts = RUDP_WINDOW - 1"
    and "type (header pkt) = RUDP_ACK"
    and "seqno (header pkt) = seqno (header w0) + 1"
    and "k = min (RUDP_WINDOW - length ps) (length (data_queue s))"
    and "news = data_packets (s_seqno s) (take k (data_queue s))"
    and "s' = s\<lparr>s_seqno := s_seqno s + of_nat k,
                 sliding_window :=
                   map Some (ps @ news) @ replicate (RUDP_WINDOW - length ps - k) None,
                 retransmission_attempts :=
                   take (length ps) (rs @ [0]) @ replicate k 0 @ drop (length ps + k) (rs @ [0]),
                 data_queue := drop k (data_queue s),
                 data_timeout_arg :=
                   take (length ps) (ts @ [None]) @
                   map (\<lambda>p. Some (timer_for fdes peer p)) news @
                   drop (length ps + k) (ts @ [None])\<rparr>"
  shows "receive_callback g fdes pkt peer =
          (if close_requested (g ! i)
           then (case send_fins [0..<length (sessions_list_head (g ! i))] (put_sender g i j s') i fdes of
                   Inl e \<Rightarrow> Inl e
                 | Inr (g'', es') \<Rightarrow>
                     Inr (g'', (Event_timeout_delete t0 # transmissions fdes peer news) @ es', 0))
           else Inr (put_sender g i j s', Event_timeout_delete t0 # transmissions fdes peer news, 0))"
proof -
  have sa: "sender_at g i j = Some s"
    using sender_at_located [OF assms(1)] assms(2) by simp
  have w0: "sliding_window s ! 0 = Some w0"
    by (simp add: assms(4))
  define sh where "sh = shift_window s"
  have sh: "sh = s\<lparr>sliding_window := map Some ps @ replicate (RUDP_WINDOW - length ps) None,
                    retransmission_attempts := rs @ [0],
                    data_timeout_arg := ts @ [None]\<rparr>"
    unfolding sh_def by (rule shift_window_packed [OF assms(4-9)])
  have l1: "locates (put_sender g i j sh) fdes peer i j"
    by (rule locates_put_sender [OF assms(1)])
  have se1: "sender (sessions_list_head (put_sender g i j sh ! i) ! j) = Some sh"
    by (simp add: session_put_sender [OF assms(1)])
  have rf: "refill_window None (put_sender g i j sh) i j fdes peer =
              Inr (put_sender (put_sender g i j sh) i j (filled fdes peer ps k sh),
                   transmissions fdes peer (data_packets (s_seqno sh) (take k (data_queue sh))))"
  proof (rule refill_window_packed [OF l1 se1])
    show "sliding_window sh = map Some ps @ replicate (RUDP_WINDOW - length ps) None"
      by (simp add: sh)
    show "length ps \<le> RUDP_WINDOW" using assms(5) by simp
    show "length (retransmission_attempts sh) = RUDP_WINDOW"
      using assms(7) by (simp add: sh RUDP_WINDOW_def)
    show "length (data_timeout_arg sh) = RUDP_WINDOW"
      using assms(9) by (simp add: sh RUDP_WINDOW_def)
    show "k = min (RUDP_WINDOW - length ps) (length (data_queue sh))"
      by (simp add: assms(12) sh)
  qed
  have s'eq: "filled fdes peer ps k sh = s'"
    by (simp add: assms(14) filled_def Let_def sh assms(13))
  have g2: "put_sender (put_sender g i j sh) i j s' = put_sender g i j s'"
    by (rule put_sender_twice [OF assms(1)])
  have il: "i < length g" by (rule locates_facts(2) [OF assms(1)])
  have cr: "close_requested (put_sender g i j s' ! i) = close_requested (g ! i)"
    unfolding put_sender_def by (rule nth_put_session_fields(4) [OF il])
  have ln: "length (sessions_list_head (put_sender g i j s' ! i)) =
              length (sessions_list_head (g ! i))"
    using il by (simp add: put_sender_def sessions_put_session)
  have nw: "data_packets (s_seqno sh) (take k (data_queue sh)) = news"
    by (simp add: assms(13) sh)
  have oa: "on_ack g i j fdes (header pkt) peer =
      (if close_requested (g ! i)
       then (case send_fins [0..<length (sessions_list_head (g ! i))] (put_sender g i j s') i fdes of
               Inl e \<Rightarrow> Inl e
             | Inr (g'', es') \<Rightarrow>
                 Inr (g'', (Event_timeout_delete t0 # transmissions fdes peer news) @ es'))
       else Inr (put_sender g i j s', Event_timeout_delete t0 # transmissions fdes peer news))"
    using sa w0 assms(3,11)
    by (simp add: on_ack_def assms(8) sh_def [symmetric] rf s'eq nw g2 cr ln split: sum.splits)
  show ?thesis
    by (simp add: receive_callback_ack [OF assms(1,10)] oa split: sum.splits)
qed

section \<open>ACK at an open sender\<close>

text \<open>
  Claim C2.  Take a sender in state \<open>OPEN\<close> whose window is occupied from slot 0 on
  (the packet \<open>w0\<close> in slot 0, the packets \<open>ps\<close> behind it) and whose slot 0 has a
  timer.  An ACK whose sequence number is not that of \<open>w0\<close> plus 1 changes nothing: the
  socket list is returned as it was, with no effect.  An ACK whose sequence number is
  that of \<open>w0\<close> plus 1 cancels the timer of slot 0, drops \<open>w0\<close>, moves \<open>ps\<close> with their
  retry counters and timers one slot to the left, and moves the first \<open>k\<close> entries of the
  queue into the free slots and transmits them, where \<open>k\<close> is the smaller of the number
  of free slots and the length of the queue; when the socket is being closed the FINs
  are sent afterwards.
\<close>

theorem ack_shifts_window_iff_head_acknowledged:
  assumes "locates g fdes peer i j"
    and "sender (sessions_list_head (g ! i) ! j) = Some s"
    and "s_status s = OPEN"
    and "sliding_window s = Some w0 # map Some ps @ replicate (RUDP_WINDOW - Suc (length ps)) None"
    and "length ps < RUDP_WINDOW"
    and "retransmission_attempts s = r0 # rs" and "length rs = RUDP_WINDOW - 1"
    and "data_timeout_arg s = Some t0 # ts" and "length ts = RUDP_WINDOW - 1"
    and "type (header pkt) = RUDP_ACK"
  shows
    "(seqno (header pkt) \<noteq> seqno (header w0) + 1 \<longrightarrow>
        receive_callback g fdes pkt peer = Inr (g, [], 0)) \<and>
     (seqno (header pkt) = seqno (header w0) + 1 \<longrightarrow>
        receive_callback g fdes pkt peer =
          (let k = min (RUDP_WINDOW - length ps) (length (data_queue s));
               news = data_packets (s_seqno s) (take k (data_queue s));
               s' = s\<lparr>s_seqno := s_seqno s + of_nat k,
                      sliding_window :=
                        map Some (ps @ news) @ replicate (RUDP_WINDOW - length ps - k) None,
                      retransmission_attempts :=
                        take (length ps) (rs @ [0]) @ replicate k 0 @ drop (length ps + k) (rs @ [0]),
                      data_queue := drop k (data_queue s),
                      data_timeout_arg :=
                        take (length ps) (ts @ [None]) @
                        map (\<lambda>p. Some (timer_for fdes peer p)) news @
                        drop (length ps + k) (ts @ [None])\<rparr>;
               g' = put_sender g i j s';
               es = Event_timeout_delete t0 # transmissions fdes peer news
           in if close_requested (g ! i)
              then (case send_fins [0..<length (sessions_list_head (g ! i))] g' i fdes of
                      Inl e \<Rightarrow> Inl e
                    | Inr (g'', es') \<Rightarrow> Inr (g'', es @ es', 0))
              else Inr (g', es, 0)))"
proof (intro conjI impI)
  assume "seqno (header pkt) \<noteq> seqno (header w0) + 1"
  then have "\<forall>w. sliding_window s ! 0 = Some w \<longrightarrow> seqno (header pkt) \<noteq> seqno (header w) + 1"
    by (simp add: assms(4))
  then show "receive_callback g fdes pkt peer = Inr (g, [], 0)"
    by (rule receive_callback_ack_other [OF assms(1-3,10)])
next
  assume eq: "seqno (header pkt) = seqno (header w0) + 1"
  show "receive_callback g fdes pkt peer =
          (let k = min (RUDP_WINDOW - length ps) (length (data_queue s));
               news = data_packets (s_seqno s) (take k (data_queue s));
               s' = s\<lparr>s_seqno := s_seqno s + of_nat k,
                      sliding_window :=
                        map Some (ps @ news) @ replicate (RUDP_WINDOW - length ps - k) None,
                      retransmission_attempts :=
                        take (length ps) (rs @ [0]) @ replicate k 0 @ drop (length ps + k) (rs @ [0]),
                      data_queue := drop k (data_queue s),
                      data_timeout_arg :=
                        take (length ps) (ts @ [None]) @
                        map (\<lambda>p. Some (timer_for fdes peer p)) news @
                        drop (length ps + k) (ts @ [None])\<rparr>;
               g' = put_sender g i j s';
               es = Event_timeout_delete t0 # transmissions fdes peer news
           in if close_requested (g ! i)
              then (case send_fins [0..<length (sessions_list_head (g ! i))] g' i fdes of
                      Inl e \<Rightarrow> Inl e
                    | Inr (g'', es') \<Rightarrow> Inr (g'', es @ es', 0))
              else Inr (g', es, 0))"
    unfolding Let_def
    by (rule receive_callback_ack_head [OF assms eq refl refl refl])
qed

theorem ack_shifts_window_iff_head_acknowledged_witness:
  "locates [example_open_sender 2] 3 example_peer 0 0 \<and>
   receive_callback [example_open_sender 2] 3 (example_ack 103) example_peer =
     Inr ([example_open_sender 2], [], 0) \<and>
   receive_callback [example_open_sender 2] 3 (example_ack 102) example_peer =
     Inr ([example_open_acked 2],
          [Event_timeout_delete (example_data_timer 101),
           Sendto 3 (example_world 104) example_peer,
           Event_timeout (example_world_timer 104)], 0)"
proof -
  have so: "sender (sessions_list_head ([example_open_sender 2] ! 0) ! 0) = Some (example_open 2)"
    by (simp add: example_open_sender_def)
  have st: "s_status (example_open 2) = OPEN"
    by (simp add: example_open_def)
  have w: "sliding_window (example_open 2) =
             Some (example_data 101) # map Some [example_data 102, example_data 103] @
             replicate (RUDP_WINDOW - Suc (length [example_data 102, example_data 103])) None"
    by (simp add: example_open_def RUDP_WINDOW_def)
  have lp: "length [example_data 102, example_data 103] < RUDP_WINDOW"
    by (simp add: RUDP_WINDOW_def)
  have r: "retransmission_attempts (example_open 2) = 0 # [2, 5]" "length [2 :: int, 5] = RUDP_WINDOW - 1"
    by (simp_all add: example_open_def RUDP_WINDOW_def)
  have t: "data_timeout_arg (example_open 2) =
             Some (example_data_timer 101) # [Some (example_data_timer 102), Some (example_data_timer 103)]"
    "length [Some (example_data_timer 102), Some (example_data_timer 103)] = RUDP_WINDOW - 1"
    by (simp_all add: example_open_def RUDP_WINDOW_def)
  have ty: "type (header (example_ack n)) = RUDP_ACK" "seqno (header (example_ack n)) = n" for n
    by (simp_all add: example_ack_def create_rudp_packet_def)
  have sq: "seqno (header (example_data 101)) = 101"
    by (simp add: example_data_def create_rudp_packet_def)
  note th = ack_shifts_window_iff_head_acknowledged
    [OF locates_example_open_sender so st w lp r t ty(1)]
  have a: "receive_callback [example_open_sender 2] 3 (example_ack 103) example_peer =
     Inr ([example_open_sender 2], [], 0)"
    using th [of 103] by (simp add: ty sq)
  have b: "receive_callback [example_open_sender 2] 3 (example_ack 102) example_peer =
     Inr ([example_open_acked 2],
          [Event_timeout_delete (example_data_timer 101),
           Sendto 3 (example_world 104) example_peer,
           Event_timeout (example_world_timer 104)], 0)"
    using th [of 102]
    by (simp add: ty sq Let_def RUDP_WINDOW_def example_open_def example_open_sender_def
        example_open_acked_def example_world_def example_world_timer_def transmissions_def timer_for_def
        put_sender_def put_session_def)
  show ?thesis
    using locates_example_open_sender a b by (intro conjI)
qed

section \<open>The window stays left-packed\<close>

lemma sender_at_put_session_kept:
  assumes "sender_at g i' j' \<noteq> None"
    and "sender_at g i j \<noteq> None \<longrightarrow> sender cs \<noteq> None"
  shows "sender_at (put_session g i j cs) i' j' \<noteq> None"
proof -
  from assms(1) have i': "i' < length g" and j': "j' < length (sessions_list_head (g ! i'))"
    and s: "sender (sessions_list_head (g ! i') ! j') \<noteq> None"
    by (auto simp: sender_at_def session_at_def split: if_splits)
  show ?thesis
  proof (cases "i = i'")
    case False
    then have "put_session g i j cs ! i' = g ! i'"
      by (simp add: put_session_def)
    then show ?thesis
      using i' j' s by (simp add: sender_at_def session_at_def put_session_def)
  next
    case True
    have n: "sessions_list_head (put_session g i j cs ! i') = (sessions_list_head (g ! i'))[j := cs]"
      using True i' by (simp add: put_session_def)
    show ?thesis
    proof (cases "j = j'")
      case False
      then show ?thesis
        using i' j' s n by (simp add: sender_at_def session_at_def put_session_def)
    next
      case j: True
      have "sender_at g i j \<noteq> None"
        using assms(1) True j by simp
      with assms(2) have "sender cs \<noteq> None"
        by simp
      then show ?thesis
        using i' j' n j by (simp add: sender_at_def session_at_def put_session_def)
    qed
  qed
qed

lemma sender_at_put_sender_kept:
  assumes "sender_at g i' j' \<noteq> None"
  shows "sender_at (put_sender g i j s) i' j' \<noteq> None"
  unfolding put_sender_def by (rule sender_at_put_session_kept [OF assms]) simp

lemma register_timeout_arg_sender:
  assumes "register_timeout_arg cs ta = Inr cs'" and "sender cs \<noteq> None"
  shows "sender cs' \<noteq> None"
  using assms
  by (auto simp: register_timeout_arg_def Let_def split: if_splits option.splits)

lemma send_packet_sender_kept:
  assumes "send_packet False g h p a = Inr (g', es)" and "sender_at g i' j' \<noteq> None"
  shows "sender_at g' i' j' \<noteq> None"
  using assms(1)
proof (cases rule: send_packet_cases)
  case 1
  with assms(2) show ?thesis by simp
next
  case (2 i j cs)
  have "sender_at g i j \<noteq> None \<longrightarrow> sender cs \<noteq> None"
  proof
    assume "sender_at g i j \<noteq> None"
    then have "sender (sessions_list_head (g ! i) ! j) \<noteq> None"
      by (auto simp: sender_at_def session_at_def split: if_splits)
    then show "sender cs \<noteq> None"
      by (rule register_timeout_arg_sender [OF 2(3)])
  qed
  then show ?thesis
    unfolding 2(4) by (rule sender_at_put_session_kept [OF assms(2)])
qed

lemma send_fins_sender_kept:
  "send_fins ks g i fl = Inr (g', es) \<Longrightarrow> sender_at g i' j' \<noteq> None \<Longrightarrow>
     sender_at g' i' j' \<noteq> None"
proof (induction ks arbitrary: g g' es)
  case Nil
  then show ?case by simp
next
  case (Cons k ks)
  from Cons.prems(1) obtain hs s where hs: "session_at g i k = Some hs" and s: "sender hs = Some s"
    by (auto split: option.splits)
  show ?case
  proof (cases "\<not> s_session_finished s \<and> data_queue s = [] \<and>
                  sliding_window s ! 0 = None \<and> s_status s = OPEN")
    case False
    with Cons.prems(1) hs s have "send_fins ks g i fl = Inr (g', es)"
      by auto
    then show ?thesis
      by (rule Cons.IH [OF _ Cons.prems(2)])
  next
    case True
    define s1 where "s1 = s\<lparr>s_seqno := s_seqno s + 1\<rparr>"
    from Cons.prems(1) hs s True obtain g1 es1 s2 es2 where
      sp: "send_packet False (put_sender g i k s1) fl
             (create_rudp_packet RUDP_FIN (s_seqno s1) 0 None) (address hs) = Inr (g1, es1)"
      and s2: "sender_at g1 i k = Some s2"
      and rec: "send_fins ks (put_sender g1 i k (s2\<lparr>s_status := FIN_SENT\<rparr>)) i fl = Inr (g', es2)"
      by (simp add: Let_def s1_def split: sum.splits option.splits prod.splits)
    have "sender_at (put_sender g i k s1) i' j' \<noteq> None"
      by (rule sender_at_put_sender_kept [OF Cons.prems(2)])
    then have "sender_at g1 i' j' \<noteq> None"
      by (rule send_packet_sender_kept [OF sp])
    then have "sender_at (put_sender g1 i k (s2\<lparr>s_status := FIN_SENT\<rparr>)) i' j' \<noteq> None"
      by (rule sender_at_put_sender_kept)
    then show ?thesis
      by (rule Cons.IH [OF rec])
  qed
qed

lemma sender_ok_window:
  assumes "sender_ok s" and "sliding_window s ! 0 = Some w0"
  obtains ps r0 rs t0 ts where
    "sliding_window s = Some w0 # map Some ps @ replicate (RUDP_WINDOW - Suc (length ps)) None"
    "length ps < RUDP_WINDOW"
    "retransmission_attempts s = r0 # rs" "length rs = RUDP_WINDOW - 1"
    "data_timeout_arg s = t0 # ts" "length ts = RUDP_WINDOW - 1"
proof -
  from assms(1) have l: "length (sliding_window s) = RUDP_WINDOW"
    "length (retransmission_attempts s) = RUDP_WINDOW"
    "length (data_timeout_arg s) = RUDP_WINDOW"
    and lp: "left_packed (sliding_window s)"
    by (simp_all add: sender_ok_def)
  from l(1) obtain a b c where w: "sliding_window s = [a, b, c]"
    by (rule length_window3)
  from l(2) obtain r0 rs where r: "retransmission_attempts s = r0 # rs" "length rs = RUDP_WINDOW - 1"
    by (cases "retransmission_attempts s") (auto simp: RUDP_WINDOW_def)
  from l(3) obtain t0 ts where t: "data_timeout_arg s = t0 # ts" "length ts = RUDP_WINDOW - 1"
    by (cases "data_timeout_arg s") (auto simp: RUDP_WINDOW_def)
  from w assms(2) have a: "a = Some w0" by simp
  from lp w have bc: "b = None \<longrightarrow> c = None"
    by (simp add: left_packed3)
  have "\<exists>ps. [a, b, c] = Some w0 # map Some ps @ replicate (RUDP_WINDOW - Suc (length ps)) None \<and>
          length ps < RUDP_WINDOW"
  proof (cases b)
    case None
    with bc a show ?thesis
      by (intro exI [of _ "[]"]) (simp add: RUDP_WINDOW_def numeral_3_eq_3)
  next
    case (Some x)
    show ?thesis
    proof (cases c)
      case None
      with Some a show ?thesis
        by (intro exI [of _ "[x]"]) (simp add: RUDP_WINDOW_def numeral_3_eq_3)
    next
      case (Some y)
      with \<open>b = Some x\<close> a show ?thesis
        by (intro exI [of _ "[x, y]"]) (simp add: RUDP_WINDOW_def)
    qed
  qed
  then obtain ps where
    "sliding_window s = Some w0 # map Some ps @ replicate (RUDP_WINDOW - Suc (length ps)) None"
    "length ps < RUDP_WINDOW"
    using w by auto
  then show ?thesis
    using r t by (rule that)
qed

lemma left_packed_explicit:
  assumes "sender_ok s"
  shows "length (sliding_window s) = RUDP_WINDOW \<and>
         \<not> (\<exists>n. Suc n < RUDP_WINDOW \<and> sliding_window s ! n = None \<and>
                sliding_window s ! Suc n \<noteq> None)"
  using assms by (auto simp: sender_ok_def left_packed_def)

text \<open>
  Claim C6.  In a reachable state, when an ACK for a sender in state \<open>OPEN\<close> has been
  processed, that sender's window has \<^verbatim>\<open>RUDP_WINDOW\<close> slots and is left-packed: no
  empty slot is followed by an occupied one.  The ACK is processed without a fault
  when the socket is not being closed and an occupied slot 0 has its timer.
\<close>

theorem sliding_window_left_packed_after_ack:
  assumes "reachable g"
    and "locates g fdes peer i j"
    and "sender (sessions_list_head (g ! i) ! j) = Some s"
    and "s_status s = OPEN"
    and "type (header pkt) = RUDP_ACK"
  shows
    "(\<forall>g' es rv. receive_callback g fdes pkt peer = Inr (g', es, rv) \<longrightarrow>
        (\<exists>s'. sender_at g' i j = Some s' \<and>
              length (sliding_window s') = RUDP_WINDOW \<and>
              \<not> (\<exists>n. Suc n < RUDP_WINDOW \<and> sliding_window s' ! n = None \<and>
                     sliding_window s' ! Suc n \<noteq> None))) \<and>
     (\<not> close_requested (g ! i) \<and>
      (sliding_window s ! 0 \<noteq> None \<longrightarrow> data_timeout_arg s ! 0 \<noteq> None) \<longrightarrow>
        (\<exists>g' es. receive_callback g fdes pkt peer = Inr (g', es, 0)))"
proof -
  have inv: "windows_left_packed g"
    by (rule reachable_windows_left_packed [OF assms(1)])
  have sa: "sender_at g i j = Some s"
    using sender_at_located [OF assms(2)] assms(3) by simp
  have ok: "sender_ok s"
    by (rule windows_left_packed_sender_at [OF inv sa])
  have packed: "\<exists>s'. sender_at g' i j = Some s' \<and>
              length (sliding_window s') = RUDP_WINDOW \<and>
              \<not> (\<exists>n. Suc n < RUDP_WINDOW \<and> sliding_window s' ! n = None \<and>
                     sliding_window s' ! Suc n \<noteq> None)"
    if r: "receive_callback g fdes pkt peer = Inr (g', es, rv)" and k: "sender_at g' i j \<noteq> None"
    for g' es rv
  proof -
    from k obtain s' where s': "sender_at g' i j = Some s'"
      by auto
    have "windows_left_packed g'"
      by (rule receive_callback_windows_left_packed [OF r inv])
    then have "sender_ok s'"
      by (rule windows_left_packed_sender_at [OF _ s'])
    then show ?thesis
      using s' left_packed_explicit by auto
  qed
  consider
    (other) "\<forall>w0. sliding_window s ! 0 = Some w0 \<longrightarrow> seqno (header pkt) \<noteq> seqno (header w0) + 1"
    | (head) w0 where "sliding_window s ! 0 = Some w0" "seqno (header pkt) = seqno (header w0) + 1"
    by auto
  then show ?thesis
  proof cases
    case other
    have r: "receive_callback g fdes pkt peer = Inr (g, [], 0)"
      by (rule receive_callback_ack_other [OF assms(2-5) other])
    have "sender_at g i j \<noteq> None"
      using sa by simp
    from packed [OF r this] show ?thesis
      using r by simp
  next
    case head
    from ok head(1) obtain ps r0 rs t0 ts where
      w: "sliding_window s = Some w0 # map Some ps @ replicate (RUDP_WINDOW - Suc (length ps)) None"
      and lp: "length ps < RUDP_WINDOW"
      and rs: "retransmission_attempts s = r0 # rs" "length rs = RUDP_WINDOW - 1"
      and ts: "data_timeout_arg s = t0 # ts" "length ts = RUDP_WINDOW - 1"
      by (rule sender_ok_window)
    show ?thesis
    proof (cases t0)
      case None
      have "seqno (header w0) = seqno (header pkt) - 1"
        using head(2) by simp
      then have "receive_callback g fdes pkt peer = Inl Null_Deref"
        using sa head(1) assms(4) ts(1) None
        by (simp add: receive_callback_ack [OF assms(2,5)] on_ack_def)
      then show ?thesis
        using head(1) ts(1) None by simp
    next
      case (Some t)
      define k where "k = min (RUDP_WINDOW - length ps) (length (data_queue s))"
      define news where "news = data_packets (s_seqno s) (take k (data_queue s))"
      define s' where "s' = s\<lparr>s_seqno := s_seqno s + of_nat k,
                 sliding_window :=
                   map Some (ps @ news) @ replicate (RUDP_WINDOW - length ps - k) None,
                 retransmission_attempts :=
                   take (length ps) (rs @ [0]) @ replicate k 0 @ drop (length ps + k) (rs @ [0]),
                 data_queue := drop k (data_queue s),
                 data_timeout_arg :=
                   take (length ps) (ts @ [None]) @
                   map (\<lambda>p. Some (timer_for fdes peer p)) news @
                   drop (length ps + k) (ts @ [None])\<rparr>"
      have ts': "data_timeout_arg s = Some t # ts"
        using ts(1) Some by simp
      note r = receive_callback_ack_head
        [OF assms(2-4) w lp rs ts' ts(2) assms(5) head(2) k_def news_def s'_def]
      have k0: "sender_at (put_sender g i j s') i j \<noteq> None"
        by (rule sender_at_put_sender_kept) (simp add: sa)
      show ?thesis
      proof (cases "close_requested (g ! i)")
        case False
        then have r': "receive_callback g fdes pkt peer =
            Inr (put_sender g i j s', Event_timeout_delete t # transmissions fdes peer news, 0)"
          using r by simp
        from packed [OF r' k0] show ?thesis
          using r' by simp
      next
        case True
        have "\<exists>s'. sender_at g' i j = Some s' \<and>
              length (sliding_window s') = RUDP_WINDOW \<and>
              \<not> (\<exists>n. Suc n < RUDP_WINDOW \<and> sliding_window s' ! n = None \<and>
                     sliding_window s' ! Suc n \<noteq> None)"
          if r': "receive_callback g fdes pkt peer = Inr (g', es, rv)" for g' es rv
        proof -
          from r' r True obtain es' where
            "send_fins [0..<length (sessions_list_head (g ! i))] (put_sender g i j s') i fdes =
               Inr (g', es')"
            by (auto split: sum.splits)
          then have "sender_at g' i j \<noteq> None"
            using k0 by (rule send_fins_sender_kept)
          with r' show ?thesis
            by (rule packed)
        qed
        then show ?thesis
          using True by blast
      qed
    qed
  qed
qed

text \<open>A run: a socket is created, its two handlers are registered, \<open>hello\<close> and \<open>world\<close>
  are sent to a new peer, and the peer acknowledges the SYN.\<close>

lemma example_run_socket: "rudp_socket [] 3 = Inr ([example_socket 3], 3)"
  by (simp add: rudp_socket_def example_socket_def)

lemma example_run_recvfrom_handler:
  "rudp_recvfrom_handler [example_socket 3] 3 (Some 1) =
     Inr ([(example_socket 3)\<lparr>recv_handler := Some 1\<rparr>], 0)"
  by (simp add: rudp_recvfrom_handler_def example_socket_def)

lemma example_run_event_handler:
  "rudp_event_handler [(example_socket 3)\<lparr>recv_handler := Some 1\<rparr>] 3 (Some 2) =
     Inr ([(example_socket 3)\<lparr>recv_handler := Some 1, handler := Some 2\<rparr>], 0)"
  by (simp add: rudp_event_handler_def example_socket_def)

lemma example_run_sendto_hello:
  "rudp_sendto [(example_socket 3)\<lparr>recv_handler := Some 1, handler := Some 2\<rparr>] 3
       [104, 101, 108, 108, 111] 5 (Some example_peer) 100 r2 =
     Inr ([example_syn_sender 0],
          [Sendto 3 (create_rudp_packet RUDP_SYN 100 0 None) example_peer,
           Event_timeout example_syn_timer], 0)"
proof -
  have "socket_search [(example_socket 3)\<lparr>recv_handler := Some 1, handler := Some 2\<rparr>] 3 = Inr (Some 0)"
    by (simp add: example_socket_def)
  from rudp_sendto_new_peer [OF _ _ this, of 5 example_peer "[104, 101, 108, 108, 111]" 100 r2]
  show ?thesis
    by (simp add: RUDP_MAXPKTSIZE_def RUDP_WINDOW_def example_socket_def example_syn_sender_def
        example_syn_timer_def numeral_3_eq_3)
qed

lemma example_run_sendto_world:
  "rudp_sendto [example_syn_sender 0] 3 [119, 111, 114, 108, 100] 5 (Some example_peer) r1 r2 =
     Inr ([example_syn_queued], [], 0)"
  by (simp add: rudp_sendto_def RUDP_MAXPKTSIZE_def example_syn_sender_def example_syn_queued_def
      sessions_lookup_def example_peer_def compare_sockaddr_def send_or_queue_def Let_def
      put_sender_def put_session_def)


lemma locates_example_syn_queued: "locates [example_syn_queued] 3 example_peer 0 0"
  by (simp add: locates_def example_syn_queued_def example_peer_def compare_sockaddr_def)

lemma locates_example_established: "locates [example_established] 3 example_peer 0 0"
  by (simp add: locates_def example_established_def example_peer_def compare_sockaddr_def)

lemma example_run_syn_acknowledged:
  "receive_callback [example_syn_queued] 3 (example_ack 101) example_peer =
     Inr ([example_established],
          [Event_timeout_delete example_syn_timer,
           Sendto 3 (example_data 101) example_peer, Event_timeout (example_data_timer 101),
           Sendto 3 (example_world 102) example_peer, Event_timeout (example_world_timer 102)], 0)"
proof -
  have ty: "type (header (example_ack 101)) = RUDP_ACK"
    by (simp add: example_ack_def create_rudp_packet_def)
  have u3: "[0..<3] = [0, 1, 2 :: nat]"
    by (simp add: upt_rec)
  show ?thesis
    unfolding receive_callback_ack [OF locates_example_syn_queued ty]
    by (simp add: u3 on_ack_def sender_at_def session_at_def example_syn_queued_def
        example_ack_def create_rudp_packet_def put_sender_def put_session_def
        refill_window.simps first_unused_slot_def upt_window RUDP_WINDOW_def
        send_packet_def sessions_lookup_def example_peer_def compare_sockaddr_def
        register_timeout_arg_def window_index_def Let_def
        example_established_def example_data_def example_world_def example_data_timer_def
        example_world_timer_def example_syn_timer_def RUDP_DATA_def RUDP_SYN_def RUDP_FIN_def
        RUDP_ACK_def)
qed


lemma reachable_example_established: "reachable [example_established]"
proof -
  have "reachable [example_socket 3]"
    by (rule reachable.socket [OF reachable.start example_run_socket])
  then have "reachable [(example_socket 3)\<lparr>recv_handler := Some 1\<rparr>]"
    by (rule reachable.recvfrom_handler [OF _ example_run_recvfrom_handler])
  then have "reachable [(example_socket 3)\<lparr>recv_handler := Some 1, handler := Some 2\<rparr>]"
    by (rule reachable.event_handler [OF _ example_run_event_handler])
  then have "reachable [example_syn_sender 0]"
    by (rule reachable.sendto [OF _ example_run_sendto_hello])
  then have "reachable [example_syn_queued]"
    by (rule reachable.sendto [OF _ example_run_sendto_world])
  then show ?thesis
    by (rule reachable.receive [OF _ example_run_syn_acknowledged])
qed

theorem sliding_window_left_packed_after_ack_witness:
  "reachable [example_established] \<and>
   locates [example_established] 3 example_peer 0 0 \<and>
   (\<exists>g' es. receive_callback [example_established] 3 (example_ack 102) example_peer = Inr (g', es, 0) \<and>
      (\<exists>s'. sender_at g' 0 0 = Some s' \<and>
            length (sliding_window s') = RUDP_WINDOW \<and>
            \<not> (\<exists>n. Suc n < RUDP_WINDOW \<and> sliding_window s' ! n = None \<and>
                   sliding_window s' ! Suc n \<noteq> None)))"
proof -
  define s where "s = the (sender (sessions_list_head ([example_established] ! 0) ! 0))"
  have so: "sender (sessions_list_head ([example_established] ! 0) ! 0) = Some s"
    by (simp add: s_def example_established_def)
  have st: "s_status s = OPEN"
    by (simp add: s_def example_established_def)
  have ty: "type (header (example_ack 102)) = RUDP_ACK"
    by (simp add: example_ack_def create_rudp_packet_def)
  have pre: "\<not> close_requested ([example_established] ! 0) \<and>
             (sliding_window s ! 0 \<noteq> None \<longrightarrow> data_timeout_arg s ! 0 \<noteq> None)"
    by (simp add: s_def example_established_def)
  note th = sliding_window_left_packed_after_ack
    [OF reachable_example_established locates_example_established so st ty]
  from th pre obtain g' es where
    r: "receive_callback [example_established] 3 (example_ack 102) example_peer = Inr (g', es, 0)"
    by blast
  with th have "\<exists>s'. sender_at g' 0 0 = Some s' \<and>
            length (sliding_window s') = RUDP_WINDOW \<and>
            \<not> (\<exists>n. Suc n < RUDP_WINDOW \<and> sliding_window s' ! n = None \<and>
                   sliding_window s' ! Suc n \<noteq> None)"
    by blast
  with r reachable_example_established locates_example_established show ?thesis
    by blast
qed

end
